theory Spec2Isabelle
  imports Main "HOL-Library.Word"
begin

section \<open>The IR substrate\<close>

text \<open>
  The passes work on LLVM IR through pointers. An \<open>Instruction*\<close> is modelled by the
  address it holds (\<open>iptr\<close>), a \<open>Type*\<close> by the handle of the uniqued type, and the C++
  type \<open>unsigned\<close> by a 32-bit word, whose arithmetic wraps around as in the source.
\<close>

type_synonym u32 = "32 word"
type_synonym iptr = nat
type_synonym type_ptr = nat
type_synonym Constant = int

text \<open>
  The opcodes of \<open>llvm::Instruction\<close>, in the groups of the opcode table: terminators,
  unary and binary operators, memory operators, casts, funclet pads and the others.
\<close>

datatype term_op = Ret | Br | Switch | IndirectBr | Invoke | Resume | Unreachable
  | CleanupRet | CatchRet | CatchSwitch | CallBr

datatype unary_op = FNeg

datatype binary_op = Add | FAdd | Sub | FSub | Mul | FMul | UDiv | SDiv | FDiv
  | URem | SRem | FRem | Shl | LShr | AShr | And | Or | Xor

datatype memory_op = Alloca | Load | Store | GetElementPtr | Fence | AtomicCmpXchg | AtomicRMW

datatype cast_op = Trunc | ZExt | SExt | FPToUI | FPToSI | UIToFP | SIToFP | FPTrunc | FPExt
  | PtrToInt | IntToPtr | BitCast | AddrSpaceCast

datatype funclet_pad_op = CleanupPad | CatchPad

datatype other_op = ICmp | FCmp | PHI | Call | Select | UserOp1 | UserOp2 | VAArg
  | ExtractElement | InsertElement | ShuffleVector | ExtractValue | InsertValue
  | LandingPad | Freeze

datatype opcode = TermOp term_op | UnaryOp unary_op | BinaryOp binary_op | MemoryOp memory_op
  | CastOp cast_op | FuncletPadOp funclet_pad_op | OtherOp other_op

text \<open>
  A \<open>Value*\<close> used as an operand: a function argument, a constant, the result of an
  instruction (named by the instruction's address) or a basic block label.
\<close>

datatype val = ArgV nat | ConstV Constant | InstV iptr | BlockV nat

text \<open>
  The callee of a call: \<open>getCalledFunction()\<close> is null for an indirect call; a direct
  callee carries its \<open>doesNotAccessMemory()\<close> attribute.
\<close>

datatype callee = Callee (doesNotAccessMemory: bool)

text \<open>
  An instruction, with the queries the passes make on it. \<open>isVolatile\<close>, \<open>isAtomic\<close>
  and \<open>mayHaveSideEffects\<close> are answered by the host IR library; they are fields here.
\<close>

record Instruction =
  iid :: iptr
  getOpcode :: opcode
  getType :: type_ptr
  operands :: "val list"
  getPredicate :: u32
  isInBounds :: bool
  isVolatile :: bool
  isAtomic :: bool
  mayHaveSideEffects :: bool
  getCalledFunction :: "callee option"

type_synonym BasicBlock = "Instruction list"

definition isTerminator :: "Instruction \<Rightarrow> bool" where
  "isTerminator I = (case getOpcode I of TermOp t \<Rightarrow> True | _ \<Rightarrow> False)"

definition isPHINode :: "Instruction \<Rightarrow> bool" where
  "isPHINode I = (getOpcode I = OtherOp PHI)"

definition isCallInst :: "Instruction \<Rightarrow> bool" where
  "isCallInst I = (getOpcode I = OtherOp Call)"

section \<open>Loop analysis (LoopUnrollingPass)\<close>

datatype UnrollStrategy = FullUnroll | PartialUnroll | RuntimeUnroll | NoUnroll

text \<open>
  A loop as the analyzer sees it: its blocks, what scalar evolution reports about the
  trip count, whether a preheader and a latch exist, and its sub-loops.
\<close>

datatype Loop = Loop
  (blocks: "BasicBlock list")
  (getSmallConstantTripCount: u32)
  (getSmallConstantTripMultiple: u32)
  (hasLoopPreheader: bool)
  (hasLoopLatch: bool)
  (getSubLoops: "Loop list")

record LoopUnrollCandidate =
  L :: Loop
  TripCount :: u32
  TripMultiple :: u32
  InstructionCount :: u32
  IsSimple :: bool
  HasSideEffects :: bool
  Strategy :: UnrollStrategy
  UnrollFactor :: u32

record LoopUnrollConfig =
  FullUnrollMaxCount :: u32
  FullUnrollMaxInstructions :: u32
  PartialUnrollFactor :: u32
  MaxPartialUnrollFactor :: u32
  AllowRuntimeUnroll :: bool
  RuntimeUnrollMinTripCount :: u32
  UnrollLoopsWithCalls :: bool
  MaxUnrolledSize :: u32

text \<open>The default member initialisers of \<open>LoopUnrollConfig\<close>.\<close>

definition defaultConfig :: LoopUnrollConfig where
  "defaultConfig = \<lparr> FullUnrollMaxCount = 8, FullUnrollMaxInstructions = 100,
     PartialUnrollFactor = 4, MaxPartialUnrollFactor = 8, AllowRuntimeUnroll = True,
     RuntimeUnrollMinTripCount = 4, UnrollLoopsWithCalls = False, MaxUnrolledSize = 400 \<rparr>"

text \<open>The constructor \<open>LoopUnrollCandidate(Loop *L)\<close>.\<close>

definition newCandidate :: "Loop \<Rightarrow> LoopUnrollCandidate" where
  "newCandidate l = \<lparr> L = l, TripCount = 0, TripMultiple = 1, InstructionCount = 0,
     IsSimple = True, HasSideEffects = False, Strategy = NoUnroll, UnrollFactor = 1 \<rparr>"

definition computeTripCount :: "Loop \<Rightarrow> u32" where
  "computeTripCount l =
     (let TC = getSmallConstantTripCount l in if 0 < TC then TC else 0)"

text \<open>\<open>countInstructions\<close>: the counter is an \<open>unsigned\<close> incremented once per counted instruction.\<close>

definition countInstructions :: "Loop \<Rightarrow> u32" where
  "countInstructions l =
     fold (\<lambda>I Count. if \<not> isPHINode I \<and> \<not> isTerminator I then Count + 1 else Count)
       (concat (blocks l)) 0"

definition isSimpleLoop :: "Loop \<Rightarrow> bool" where
  "isSimpleLoop l =
     (if \<not> hasLoopPreheader l then False
      else if \<not> hasLoopLatch l then False
      else True)"

text \<open>The body of the instruction loop of \<open>hasSideEffects\<close>: true when it returns true at \<open>I\<close>.\<close>

definition instrHasSideEffects :: "Instruction \<Rightarrow> bool" where
  "instrHasSideEffects I =
     (if isCallInst I \<and>
         (case getCalledFunction I of None \<Rightarrow> True | Some F \<Rightarrow> \<not> doesNotAccessMemory F)
      then True
      else if isVolatile I then True
      else if isAtomic I then True
      else False)"

fun hasSideEffects_instrs :: "Instruction list \<Rightarrow> bool" where
  "hasSideEffects_instrs [] = False"
| "hasSideEffects_instrs (I # Is) =
     (if instrHasSideEffects I then True else hasSideEffects_instrs Is)"

definition hasSideEffects :: "Loop \<Rightarrow> bool" where
  "hasSideEffects l = hasSideEffects_instrs (concat (blocks l))"

definition determineStrategy :: "LoopUnrollConfig \<Rightarrow> LoopUnrollCandidate \<Rightarrow> UnrollStrategy" where
  "determineStrategy Config Candidate =
     (if HasSideEffects Candidate \<and> \<not> UnrollLoopsWithCalls Config then NoUnroll
      else if 0 < TripCount Candidate \<and>
              TripCount Candidate \<le> FullUnrollMaxCount Config \<and>
              InstructionCount Candidate * TripCount Candidate
                \<le> FullUnrollMaxInstructions Config
           then FullUnroll
      else if 0 < TripCount Candidate then PartialUnroll
      else if AllowRuntimeUnroll Config \<and> IsSimple Candidate then RuntimeUnroll
      else NoUnroll)"

text \<open>
  The two \<open>while\<close> loops of the \<open>PartialUnroll\<close> case of \<open>calculateUnrollFactor\<close>: the first
  lowers the factor until it divides the trip count, the second lowers it further while
  the unrolled size exceeds the limit.
\<close>

function divideLoop :: "u32 \<Rightarrow> u32 \<Rightarrow> u32" where
  "divideLoop TC Factor =
     (if 1 < Factor \<and> TC mod Factor \<noteq> 0 then divideLoop TC (Factor - 1) else Factor)"
  by pat_completeness auto
termination
proof (relation "measure (\<lambda>(TC, Factor). unat Factor)")
  show "wf (measure (\<lambda>(TC, Factor). unat Factor))" by simp
next
  fix TC Factor :: u32
  assume "1 < Factor \<and> TC mod Factor \<noteq> 0"
  then have nz: "Factor \<noteq> 0" by auto
  then have "unat (Factor - 1) = unat Factor - 1" by (rule unat_minus_one)
  moreover have "0 < unat Factor" using nz by (simp add: unat_gt_0)
  ultimately show "((TC, Factor - 1), (TC, Factor)) \<in> measure (\<lambda>(TC, Factor). unat Factor)"
    by simp
qed

function sizeLoop :: "u32 \<Rightarrow> u32 \<Rightarrow> u32 \<Rightarrow> u32" where
  "sizeLoop IC MaxSize Factor =
     (if 1 < Factor \<and> MaxSize < IC * Factor then sizeLoop IC MaxSize (Factor - 1) else Factor)"
  by pat_completeness auto
termination
proof (relation "measure (\<lambda>(IC, MaxSize, Factor). unat Factor)")
  show "wf (measure (\<lambda>(IC, MaxSize, Factor). unat Factor))" by simp
next
  fix IC MaxSize Factor :: u32
  assume "1 < Factor \<and> MaxSize < IC * Factor"
  then have nz: "Factor \<noteq> 0" by auto
  then have "unat (Factor - 1) = unat Factor - 1" by (rule unat_minus_one)
  moreover have "0 < unat Factor" using nz by (simp add: unat_gt_0)
  ultimately show "((IC, MaxSize, Factor - 1), (IC, MaxSize, Factor))
      \<in> measure (\<lambda>(IC, MaxSize, Factor). unat Factor)"
    by simp
qed

declare divideLoop.simps [simp del] sizeLoop.simps [simp del]

definition calculateUnrollFactor :: "LoopUnrollConfig \<Rightarrow> LoopUnrollCandidate \<Rightarrow> u32" where
  "calculateUnrollFactor Config Candidate =
     (case Strategy Candidate of
        FullUnroll \<Rightarrow> TripCount Candidate
      | PartialUnroll \<Rightarrow>
          sizeLoop (InstructionCount Candidate) (MaxUnrolledSize Config)
            (divideLoop (TripCount Candidate) (PartialUnrollFactor Config))
      | RuntimeUnroll \<Rightarrow> PartialUnrollFactor Config
      | NoUnroll \<Rightarrow> 1)"

definition analyzeLoop :: "LoopUnrollConfig \<Rightarrow> Loop \<Rightarrow> LoopUnrollCandidate" where
  "analyzeLoop Config l =
     (let C0 = newCandidate l;
          C1 = C0\<lparr>TripCount := computeTripCount l\<rparr>;
          C2 = C1\<lparr>TripMultiple := getSmallConstantTripMultiple l\<rparr>;
          C3 = C2\<lparr>InstructionCount := countInstructions l\<rparr>;
          C4 = C3\<lparr>IsSimple := isSimpleLoop l\<rparr>;
          C5 = C4\<lparr>HasSideEffects := hasSideEffects l\<rparr>;
          C6 = C5\<lparr>Strategy := determineStrategy Config C5\<rparr>
      in C6\<lparr>UnrollFactor := calculateUnrollFactor Config C6\<rparr>)"

text \<open>\<open>depth_first(L)\<close>: the loop, then its sub-loops, each with its own sub-loops.\<close>

fun depth_first :: "Loop \<Rightarrow> Loop list" where
  "depth_first (Loop bs tc tm ph la subs) =
     Loop bs tc tm ph la subs # concat (map depth_first subs)"

text \<open>\<open>getCandidates\<close> over the top-level loops of \<open>LoopInfo\<close>.\<close>

definition getCandidates :: "LoopUnrollConfig \<Rightarrow> Loop list \<Rightarrow> LoopUnrollCandidate list" where
  "getCandidates Config LI =
     filter (\<lambda>Candidate. Strategy Candidate \<noteq> NoUnroll)
       (map (analyzeLoop Config) (concat (map depth_first LI)))"

section \<open>Value numbering (RedundancyAnalysis)\<close>

record ExpressionKey =
  Opcode :: opcode
  OperandValueNumbers :: "u32 list"
  ResultType :: type_ptr
  Predicate :: u32
  InBounds :: bool

text \<open>\<open>ExpressionKey::operator==\<close>.\<close>

definition ExpressionKey_eq :: "ExpressionKey \<Rightarrow> ExpressionKey \<Rightarrow> bool" where
  "ExpressionKey_eq a b =
     (Opcode a = Opcode b \<and>
      OperandValueNumbers a = OperandValueNumbers b \<and>
      ResultType a = ResultType b \<and>
      Predicate a = Predicate b \<and>
      InBounds a = InBounds b)"

text \<open>
  The table: the next number, the \<open>DenseMap\<close> from values to numbers, and the
  \<open>unordered_map\<close> from keys to the vector of instructions recorded under the key.
\<close>

record ValueNumberTable =
  NextValueNumber :: u32
  ValueNumbers :: "val \<rightharpoonup> u32"
  ExpressionTable :: "ExpressionKey \<rightharpoonup> iptr list"

definition newValueNumberTable :: ValueNumberTable where
  "newValueNumberTable =
     \<lparr> NextValueNumber = 1, ValueNumbers = Map.empty, ExpressionTable = Map.empty \<rparr>"

definition isCommutative :: "opcode \<Rightarrow> bool" where
  "isCommutative Opc =
     (case Opc of
        BinaryOp Add \<Rightarrow> True
      | BinaryOp FAdd \<Rightarrow> True
      | BinaryOp Mul \<Rightarrow> True
      | BinaryOp FMul \<Rightarrow> True
      | BinaryOp And \<Rightarrow> True
      | BinaryOp Or \<Rightarrow> True
      | BinaryOp Xor \<Rightarrow> True
      | _ \<Rightarrow> False)"

definition canonicalizeOperands :: "u32 list \<Rightarrow> opcode \<Rightarrow> u32 list" where
  "canonicalizeOperands Operands Opc =
     (if isCommutative Opc \<and> length Operands = 2
      then (if Operands ! 0 > Operands ! 1
            then Operands[0 := Operands ! 1, 1 := Operands ! 0]
            else Operands)
      else Operands)"

definition getValueNumber :: "ValueNumberTable \<Rightarrow> val \<Rightarrow> u32 \<times> ValueNumberTable" where
  "getValueNumber T V =
     (case ValueNumbers T V of
        Some VN \<Rightarrow> (VN, T)
      | None \<Rightarrow>
          (NextValueNumber T,
           T\<lparr> NextValueNumber := NextValueNumber T + 1,
              ValueNumbers := (ValueNumbers T)(V \<mapsto> NextValueNumber T) \<rparr>))"

definition lookupValueNumber :: "ValueNumberTable \<Rightarrow> val \<Rightarrow> u32" where
  "lookupValueNumber T V = (case ValueNumbers T V of Some VN \<Rightarrow> VN | None \<Rightarrow> 0)"

text \<open>The operand loop of \<open>createExpressionKey\<close>: numbers the operands from left to right.\<close>

fun operandValueNumbers :: "ValueNumberTable \<Rightarrow> val list \<Rightarrow> u32 list \<times> ValueNumberTable" where
  "operandValueNumbers T [] = ([], T)"
| "operandValueNumbers T (Op # Ops) =
     (case getValueNumber T Op of
        (VN, T1) \<Rightarrow>
          (case operandValueNumbers T1 Ops of (VNs, T2) \<Rightarrow> (VN # VNs, T2)))"

definition isCmpInst :: "Instruction \<Rightarrow> bool" where
  "isCmpInst I = (getOpcode I = OtherOp ICmp \<or> getOpcode I = OtherOp FCmp)"

definition isGetElementPtrInst :: "Instruction \<Rightarrow> bool" where
  "isGetElementPtrInst I = (getOpcode I = MemoryOp GetElementPtr)"

definition createExpressionKey ::
    "ValueNumberTable \<Rightarrow> Instruction \<Rightarrow> ExpressionKey \<times> ValueNumberTable" where
  "createExpressionKey T I =
     (case operandValueNumbers T (operands I) of
        (VNs, T1) \<Rightarrow>
          (\<lparr> Opcode = getOpcode I,
             OperandValueNumbers = canonicalizeOperands VNs (getOpcode I),
             ResultType = getType I,
             Predicate = (if isCmpInst I then getPredicate I else 0),
             InBounds = (if isGetElementPtrInst I then isInBounds I else False) \<rparr>,
           T1))"

text \<open>
  The candidate loop of \<open>findAvailableValue\<close>; \<open>dominates\<close> is the dominator tree's
  instruction-level query \<open>DT.dominates(Candidate, QueryPoint)\<close>.
\<close>

fun findCandidate :: "(iptr \<Rightarrow> iptr \<Rightarrow> bool) \<Rightarrow> iptr list \<Rightarrow> iptr \<Rightarrow> iptr option" where
  "findCandidate dominates [] QueryPoint = None"
| "findCandidate dominates (Candidate # Cs) QueryPoint =
     (if Candidate = QueryPoint then findCandidate dominates Cs QueryPoint
      else if dominates Candidate QueryPoint then Some Candidate
      else findCandidate dominates Cs QueryPoint)"

definition findAvailableValue ::
    "ValueNumberTable \<Rightarrow> ExpressionKey \<Rightarrow> iptr \<Rightarrow> (iptr \<Rightarrow> iptr \<Rightarrow> bool) \<Rightarrow> iptr option" where
  "findAvailableValue T Key QueryPoint dominates =
     (case ExpressionTable T Key of
        None \<Rightarrow> None
      | Some Cs \<Rightarrow> findCandidate dominates Cs QueryPoint)"

definition addExpression :: "ValueNumberTable \<Rightarrow> ExpressionKey \<Rightarrow> iptr \<Rightarrow> ValueNumberTable" where
  "addExpression T Key I =
     T\<lparr> ExpressionTable := (ExpressionTable T)
          (Key \<mapsto> (case ExpressionTable T Key of None \<Rightarrow> [] | Some Cs \<Rightarrow> Cs) @ [I]) \<rparr>"

definition isAnalyzable :: "Instruction \<Rightarrow> bool" where
  "isAnalyzable I =
     (if isPHINode I then False
      else if isTerminator I then False
      else if mayHaveSideEffects I then False
      else if isVolatile I then False
      else if getOpcode I = MemoryOp Load \<or> getOpcode I = MemoryOp Store then False
      else if getOpcode I = MemoryOp Alloca then False
      else if getOpcode I = OtherOp Call \<or> getOpcode I = TermOp Invoke then False
      else True)"

text \<open>\<open>RedundancyInfo\<close>: the map from redundant instruction to replacement, and the counters.\<close>

record RedundancyInfo =
  RedundantInstructions :: "iptr \<rightharpoonup> iptr"
  StatTotalInstructions :: u32
  StatRedundantInstructions :: u32
  StatUniqueExpressions :: u32

definition newRedundancyInfo :: RedundancyInfo where
  "newRedundancyInfo = \<lparr> RedundantInstructions = Map.empty, StatTotalInstructions = 0,
     StatRedundantInstructions = 0, StatUniqueExpressions = 0 \<rparr>"

text \<open>The body of the instruction loop of \<open>processBlock\<close>, on the table and the result.\<close>

definition processInstruction ::
    "(iptr \<Rightarrow> iptr \<Rightarrow> bool) \<Rightarrow> Instruction \<Rightarrow> ValueNumberTable \<times> RedundancyInfo
       \<Rightarrow> ValueNumberTable \<times> RedundancyInfo" where
  "processInstruction dominates I S =
     (case S of (T, Result) \<Rightarrow>
        (let Result1 = Result\<lparr> StatTotalInstructions := StatTotalInstructions Result + 1 \<rparr> in
         if \<not> isAnalyzable I then (snd (getValueNumber T (InstV (iid I))), Result1)
         else
           (case createExpressionKey T I of
              (Key, T1) \<Rightarrow>
                (case findAvailableValue T1 Key (iid I) dominates of
                   Some Available \<Rightarrow>
                     (snd (getValueNumber T1 (InstV (iid I))),
                      Result1\<lparr> RedundantInstructions :=
                                 (RedundantInstructions Result1)(iid I \<mapsto> Available),
                               StatRedundantInstructions :=
                                 StatRedundantInstructions Result1 + 1 \<rparr>)
                 | None \<Rightarrow>
                     (snd (getValueNumber (addExpression T1 Key (iid I)) (InstV (iid I))),
                      Result1\<lparr> StatUniqueExpressions :=
                                 StatUniqueExpressions Result1 + 1 \<rparr>)))))"

definition processBlock ::
    "(iptr \<Rightarrow> iptr \<Rightarrow> bool) \<Rightarrow> BasicBlock \<Rightarrow> ValueNumberTable \<times> RedundancyInfo
       \<Rightarrow> ValueNumberTable \<times> RedundancyInfo" where
  "processBlock dominates BB S = fold (processInstruction dominates) BB S"

text \<open>
  What \<open>RedundancyAnalysis::run\<close> reads of the function and of its dominator tree: the
  arguments, the instruction-level dominance query, and the blocks in the depth-first
  order of the tree from its root.
\<close>

record AnalysisInput =
  args :: "nat list"
  dominates :: "iptr \<Rightarrow> iptr \<Rightarrow> bool"
  domTreePreorder :: "BasicBlock list"

text \<open>\<open>run\<close> with the table it builds; the source returns the result only.\<close>

definition runTable :: "AnalysisInput \<Rightarrow> ValueNumberTable \<times> RedundancyInfo" where
  "runTable F =
     (let VNT = fold (\<lambda>Arg T. snd (getValueNumber T (ArgV Arg))) (args F) newValueNumberTable
      in fold (processBlock (dominates F)) (domTreePreorder F) (VNT, newRedundancyInfo))"

definition run :: "AnalysisInput \<Rightarrow> RedundancyInfo" where
  "run F = snd (runTable F)"

section \<open>Redundancy elimination (RedundancyEliminationPass)\<close>

text \<open>
  The function body is its list of blocks. \<open>replaceAllUsesWith\<close> rewrites every operand
  that names the old instruction; \<open>eraseFromParent\<close> unlinks the instruction.
\<close>

definition replaceUse :: "iptr \<Rightarrow> val \<Rightarrow> val \<Rightarrow> val" where
  "replaceUse Old New V = (if V = InstV Old then New else V)"

definition replaceAllUsesWith :: "BasicBlock list \<Rightarrow> iptr \<Rightarrow> val \<Rightarrow> BasicBlock list" where
  "replaceAllUsesWith F Old New =
     map (map (\<lambda>I. I\<lparr> operands := map (replaceUse Old New) (operands I) \<rparr>)) F"

definition eraseFromParent :: "iptr \<Rightarrow> BasicBlock list \<Rightarrow> BasicBlock list" where
  "eraseFromParent P F = map (filter (\<lambda>I. iid I \<noteq> P)) F"

text \<open>The instruction a pointer denotes in the function, if any.\<close>

definition deref :: "BasicBlock list \<Rightarrow> iptr \<Rightarrow> Instruction option" where
  "deref F P = find (\<lambda>I. iid I = P) (concat F)"






text \<open>
  The factor the specification prescribes for a partial unroll, in its own words: the
  largest \<open>F \<le> partial_factor\<close> with \<open>F | trip_count\<close> and
  \<open>F * instruction_count \<le> max_unrolled_size\<close>, and 1 when no \<open>F > 1\<close> qualifies.
  The search runs downwards from \<open>partial_factor\<close>.
\<close>

fun specPartialFactor :: "nat \<Rightarrow> nat \<Rightarrow> nat \<Rightarrow> nat \<Rightarrow> nat" where
  "specPartialFactor 0 mx tc ic = 1"
| "specPartialFactor (Suc n) mx tc ic =
     (if 1 < Suc n \<and> Suc n dvd tc \<and> Suc n * ic \<le> mx then Suc n
      else specPartialFactor n mx tc ic)"

section \<open>Example inputs\<close>

text \<open>
  A plain instruction, and three loop bodies: one whose only call is to a function that
  does not access memory, one whose call may access memory, and a single-block body with
  \<open>n\<close> additions between its header PHI and its branch.
\<close>

definition mkInst :: "iptr \<Rightarrow> opcode \<Rightarrow> type_ptr \<Rightarrow> val list \<Rightarrow> Instruction" where
  "mkInst p opc ty ops = \<lparr> iid = p, getOpcode = opc, getType = ty, operands = ops,
     getPredicate = 0, isInBounds = False, isVolatile = False, isAtomic = False,
     mayHaveSideEffects = False, getCalledFunction = None \<rparr>"

definition pureCallBody :: "BasicBlock list" where
  "pureCallBody =
     [[mkInst 1 (OtherOp PHI) 32 [ConstV 0, InstV 4],
       (mkInst 2 (OtherOp Call) 32 [InstV 1])\<lparr>getCalledFunction := Some (Callee True)\<rparr>,
       mkInst 3 (BinaryOp Add) 32 [InstV 2, ArgV 0],
       mkInst 4 (BinaryOp Add) 32 [InstV 1, ConstV 1],
       (mkInst 5 (OtherOp ICmp) 1 [InstV 4, ArgV 1])\<lparr>getPredicate := 36\<rparr>,
       mkInst 6 (TermOp Br) 0 [InstV 5, BlockV 1, BlockV 2]]]"

definition impureCallBody :: "BasicBlock list" where
  "impureCallBody =
     [[mkInst 1 (OtherOp PHI) 32 [ConstV 0, InstV 4],
       (mkInst 2 (OtherOp Call) 32 [InstV 1])\<lparr>getCalledFunction := Some (Callee False),
          mayHaveSideEffects := True\<rparr>,
       mkInst 4 (BinaryOp Add) 32 [InstV 1, ConstV 1],
       (mkInst 5 (OtherOp ICmp) 1 [InstV 4, ArgV 1])\<lparr>getPredicate := 36\<rparr>,
       mkInst 6 (TermOp Br) 0 [InstV 5, BlockV 1, BlockV 2]]]"

definition bigBody :: "nat \<Rightarrow> BasicBlock list" where
  "bigBody n =
     [mkInst 1 (OtherOp PHI) 32 [ConstV 0, InstV 2]
      # map (\<lambda>k. mkInst k (BinaryOp Add) 32 [InstV (k - 1), ArgV 0]) [2..<n + 2]
      @ [mkInst (n + 2) (TermOp Br) 0 [ArgV 1, BlockV 1, BlockV 2]]]"


section \<open>Invariants of the analysis\<close>

text \<open>
  The instructions recorded in some bucket of the expression table, the addresses of the
  analyzable instructions among a set of instructions, and the two invariants the
  analysis keeps while it walks the blocks: every recorded instruction is an analyzable
  instruction already visited, every pair of the result has a visited analyzable key and a
  recorded, strictly dominating replacement, every visited instruction is numbered; and no
  recorded instruction is a key of the result.
\<close>

definition tableMembers :: "ValueNumberTable \<Rightarrow> iptr set" where
  "tableMembers T = {p. \<exists>K Cs. ExpressionTable T K = Some Cs \<and> p \<in> set Cs}"

definition analyzableIds :: "Instruction set \<Rightarrow> iptr set" where
  "analyzableIds S = {p. \<exists>I. I \<in> S \<and> isAnalyzable I \<and> iid I = p}"

definition analysisInv ::
    "(iptr \<Rightarrow> iptr \<Rightarrow> bool) \<Rightarrow> Instruction set \<Rightarrow> ValueNumberTable \<times> RedundancyInfo \<Rightarrow> bool" where
  "analysisInv d S st =
     (tableMembers (fst st) \<subseteq> analyzableIds S \<and>
      (\<forall>r p. RedundantInstructions (snd st) r = Some p \<longrightarrow>
          p \<noteq> r \<and> d p r \<and> r \<in> analyzableIds S \<and> p \<in> tableMembers (fst st)) \<and>
      (\<forall>I \<in> S. ValueNumbers (fst st) (InstV (iid I)) \<noteq> None))"

definition disjointInv :: "ValueNumberTable \<times> RedundancyInfo \<Rightarrow> bool" where
  "disjointInv st = (tableMembers (fst st) \<inter> dom (RedundantInstructions (snd st)) = {})"

text \<open>
  The function \<open>u = x + y; v = y + x; w = u + v; ret w\<close> in one block, where an
  instruction dominates the later ones, and a table in which \<open>x\<close> has the larger number.
\<close>

definition commutativeExample :: AnalysisInput where
  "commutativeExample =
     \<lparr> args = [0, 1],
       dominates = (\<lambda>A B. A < B),
       domTreePreorder =
         [[mkInst 1 (BinaryOp Add) 32 [ArgV 0, ArgV 1],
           mkInst 2 (BinaryOp Add) 32 [ArgV 1, ArgV 0],
           mkInst 3 (BinaryOp Add) 32 [InstV 1, InstV 2],
           mkInst 4 (TermOp Ret) 0 [InstV 3]]] \<rparr>"

definition exampleTable :: ValueNumberTable where
  "exampleTable = \<lparr> NextValueNumber = 3, ValueNumbers = [ArgV 0 \<mapsto> 2, ArgV 1 \<mapsto> 1],
     ExpressionTable = Map.empty \<rparr>"

section \<open>Auxiliary notions for the elimination\<close>

text \<open>
  The addresses and types of a body in order; whether two pointers denote instructions of
  the same type; whether the pointers of an entry denote instructions; the entries of the
  map that are not skipped, in order; and the composition of their redirections on a
  value and on a body.
\<close>

definition typeView :: "BasicBlock list \<Rightarrow> (iptr \<times> type_ptr) list" where
  "typeView B = map (\<lambda>I. (iid I, getType I)) (concat B)"

definition typesMatch :: "BasicBlock list \<Rightarrow> iptr \<Rightarrow> iptr \<Rightarrow> bool" where
  "typesMatch F R P = (map_option getType (deref F R) = map_option getType (deref F P))"


fun matchingPairs :: "BasicBlock list \<Rightarrow> (iptr option \<times> iptr option) list \<Rightarrow> (iptr \<times> iptr) list" where
  "matchingPairs F [] = []"
| "matchingPairs F (E # Es) =
     (case E of
        (Some R, Some P) \<Rightarrow>
          if typesMatch F R P then (R, P) # matchingPairs F Es else matchingPairs F Es
      | _ \<Rightarrow> matchingPairs F Es)"

definition redirect :: "(iptr \<times> iptr) list \<Rightarrow> val \<Rightarrow> val" where
  "redirect Ps V = fold (\<lambda>RP W. replaceUse (fst RP) (InstV (snd RP)) W) Ps V"

definition redirectAll :: "(iptr \<times> iptr) list \<Rightarrow> BasicBlock list \<Rightarrow> BasicBlock list" where
  "redirectAll Ps B = map (map (\<lambda>I. I\<lparr> operands := map (redirect Ps) (operands I) \<rparr>)) B"




section \<open>Constant folding (ConstantFoldingPass)\<close>

text \<open>
  \<open>ConstantFoldInstruction(I, DL)\<close> belongs to the host IR library. It is a parameter of
  the model: a function from the instruction, with the operands it has at the time of the
  call, to the constant it evaluates to, \<open>None\<close> for \<open>nullptr\<close>.
\<close>

type_synonym folder = "Instruction \<Rightarrow> Constant option"

text \<open>
  \<open>isa<Constant>\<close> on an operand, the test on the operand at an index (an instruction of
  the class visited has that operand), and the loop of \<open>allOperandsConstant\<close>.
\<close>

definition isConstant :: "val \<Rightarrow> bool" where
  "isConstant V = (case V of ConstV C \<Rightarrow> True | _ \<Rightarrow> False)"

definition operandIsConstant :: "Instruction \<Rightarrow> nat \<Rightarrow> bool" where
  "operandIsConstant I n = (n < length (operands I) \<and> isConstant (operands I ! n))"

definition allOperandsConstant :: "Instruction \<Rightarrow> bool" where
  "allOperandsConstant I = list_all isConstant (operands I)"

text \<open>
  The visitor: the candidates it has collected, by address, and its counters.
\<close>

record Stats =
  BinaryOpsFound :: u32
  CastsFound :: u32
  ComparisonsFound :: u32
  SelectsFound :: u32
  GEPsFound :: u32

record ConstantFoldingVisitor =
  FoldingCandidates :: "iptr list"
  Statistics :: Stats

definition newVisitor :: ConstantFoldingVisitor where
  "newVisitor = \<lparr> FoldingCandidates = [],
     Statistics = \<lparr> BinaryOpsFound = 0, CastsFound = 0, ComparisonsFound = 0,
                     SelectsFound = 0, GEPsFound = 0 \<rparr> \<rparr>"

text \<open>
  The visit methods. Each returns its flag and the visitor after the call.
\<close>

definition visitBinaryOperator ::
    "folder \<Rightarrow> Instruction \<Rightarrow> ConstantFoldingVisitor \<Rightarrow> bool \<times> ConstantFoldingVisitor" where
  "visitBinaryOperator Fold BO V =
     (if operandIsConstant BO 0 \<and> operandIsConstant BO 1 \<and> Fold BO \<noteq> None
      then (True, V\<lparr> FoldingCandidates := FoldingCandidates V @ [iid BO],
                     Statistics := (Statistics V)\<lparr> BinaryOpsFound := BinaryOpsFound (Statistics V) + 1 \<rparr> \<rparr>)
      else (False, V))"

definition visitCastInst ::
    "folder \<Rightarrow> Instruction \<Rightarrow> ConstantFoldingVisitor \<Rightarrow> bool \<times> ConstantFoldingVisitor" where
  "visitCastInst Fold CI V =
     (if operandIsConstant CI 0 \<and> Fold CI \<noteq> None
      then (True, V\<lparr> FoldingCandidates := FoldingCandidates V @ [iid CI],
                     Statistics := (Statistics V)\<lparr> CastsFound := CastsFound (Statistics V) + 1 \<rparr> \<rparr>)
      else (False, V))"

definition visitCmpInst ::
    "folder \<Rightarrow> Instruction \<Rightarrow> ConstantFoldingVisitor \<Rightarrow> bool \<times> ConstantFoldingVisitor" where
  "visitCmpInst Fold CI V =
     (if operandIsConstant CI 0 \<and> operandIsConstant CI 1 \<and> Fold CI \<noteq> None
      then (True, V\<lparr> FoldingCandidates := FoldingCandidates V @ [iid CI],
                     Statistics := (Statistics V)\<lparr> ComparisonsFound := ComparisonsFound (Statistics V) + 1 \<rparr> \<rparr>)
      else (False, V))"

definition visitSelectInst ::
    "folder \<Rightarrow> Instruction \<Rightarrow> ConstantFoldingVisitor \<Rightarrow> bool \<times> ConstantFoldingVisitor" where
  "visitSelectInst Fold SI V =
     (if operandIsConstant SI 0 \<and> Fold SI \<noteq> None
      then (True, V\<lparr> FoldingCandidates := FoldingCandidates V @ [iid SI],
                     Statistics := (Statistics V)\<lparr> SelectsFound := SelectsFound (Statistics V) + 1 \<rparr> \<rparr>)
      else (False, V))"

definition visitGetElementPtrInst ::
    "folder \<Rightarrow> Instruction \<Rightarrow> ConstantFoldingVisitor \<Rightarrow> bool \<times> ConstantFoldingVisitor" where
  "visitGetElementPtrInst Fold GEP V =
     (if allOperandsConstant GEP \<and> Fold GEP \<noteq> None
      then (True, V\<lparr> FoldingCandidates := FoldingCandidates V @ [iid GEP],
                     Statistics := (Statistics V)\<lparr> GEPsFound := GEPsFound (Statistics V) + 1 \<rparr> \<rparr>)
      else (False, V))"

definition visitInstruction ::
    "Instruction \<Rightarrow> ConstantFoldingVisitor \<Rightarrow> bool \<times> ConstantFoldingVisitor" where
  "visitInstruction I V = (False, V)"

text \<open>
  The dispatch of \<open>InstVisitor::visit\<close>: an instruction goes to the most specific method
  the visitor defines for its class, and to \<open>visitInstruction\<close> when there is none.
\<close>

definition isBinaryOperator :: "Instruction \<Rightarrow> bool" where
  "isBinaryOperator I = (case getOpcode I of BinaryOp b \<Rightarrow> True | _ \<Rightarrow> False)"

definition isCastInst :: "Instruction \<Rightarrow> bool" where
  "isCastInst I = (case getOpcode I of CastOp c \<Rightarrow> True | _ \<Rightarrow> False)"

definition isSelectInst :: "Instruction \<Rightarrow> bool" where
  "isSelectInst I = (getOpcode I = OtherOp Select)"

definition visit ::
    "folder \<Rightarrow> Instruction \<Rightarrow> ConstantFoldingVisitor \<Rightarrow> bool \<times> ConstantFoldingVisitor" where
  "visit Fold I V =
     (if isBinaryOperator I then visitBinaryOperator Fold I V
      else if isCastInst I then visitCastInst Fold I V
      else if isCmpInst I then visitCmpInst Fold I V
      else if isSelectInst I then visitSelectInst Fold I V
      else if isGetElementPtrInst I then visitGetElementPtrInst Fold I V
      else visitInstruction I V)"

text \<open>
  The second phase. The state of one round of the \<open>do\<close> loop is the body, the local
  \<open>ToDelete\<close> (field \<open>Scheduled\<close>) and the locals \<open>Changed\<close> and \<open>TotalFolded\<close>.
\<close>

definition tryFold :: "folder \<Rightarrow> Instruction \<Rightarrow> Constant option" where
  "tryFold Fold I = Fold I"

record FoldState =
  function_body :: "BasicBlock list"
  Scheduled :: "iptr list"
  Changed :: bool
  TotalFolded :: u32

definition replaceAndScheduleRemoval :: "iptr \<Rightarrow> Constant \<Rightarrow> FoldState \<Rightarrow> FoldState" where
  "replaceAndScheduleRemoval I Replacement S =
     S\<lparr> function_body := replaceAllUsesWith (function_body S) I (ConstV Replacement),
        Scheduled := Scheduled S @ [I] \<rparr>"

text \<open>
  The body of the inner loop for the instruction at an address: the instruction is read
  with the operands it has by then, since a replacement earlier in the round may have
  rewritten them. Nothing is erased during the round, so the addresses collected at its
  start all denote instructions.
\<close>

definition foldInstruction :: "folder \<Rightarrow> iptr \<Rightarrow> FoldState \<Rightarrow> FoldState" where
  "foldInstruction Fold P S =
     (case deref (function_body S) P of
        None \<Rightarrow> S
      | Some I \<Rightarrow>
          (case tryFold Fold I of
             None \<Rightarrow> S
           | Some C \<Rightarrow> (replaceAndScheduleRemoval P C S)
                          \<lparr> Changed := True, TotalFolded := TotalFolded S + 1 \<rparr>))"

text \<open>
  One round: the walk over all blocks, then the erasure of the scheduled instructions.
\<close>

definition sweep :: "folder \<Rightarrow> BasicBlock list \<Rightarrow> u32 \<Rightarrow> FoldState" where
  "sweep Fold F Count =
     (let S = fold (foldInstruction Fold) (map iid (concat F))
                \<lparr> function_body = F, Scheduled = [], Changed = False, TotalFolded = Count \<rparr>
      in S\<lparr> function_body := fold eraseFromParent (Scheduled S) (function_body S) \<rparr>)"

text \<open>
  The \<open>do ... while (Changed)\<close> loop. A round that changes something erases at least one
  instruction, so the loop ends.
\<close>

function foldToFixedPoint :: "folder \<Rightarrow> BasicBlock list \<Rightarrow> u32 \<Rightarrow> BasicBlock list \<times> u32" where
  "foldToFixedPoint Fold F Count =
     (let S = sweep Fold F Count in
      if Changed S then foldToFixedPoint Fold (function_body S) (TotalFolded S)
      else (function_body S, TotalFolded S))"
  by pat_completeness auto
termination
proof (relation "measure (\<lambda>(Fold, F, Count). length (concat F))")
  show "wf (measure (\<lambda>(Fold, F, Count). length (concat F)))"
    by simp
next
  fix Fold :: folder and F :: "BasicBlock list" and Count :: u32 and S :: FoldState
  assume S: "S = sweep Fold F Count" and C: "Changed S"
  define ids where "ids = map iid (concat F)"
  define S0 where "S0 = \<lparr> function_body = F, Scheduled = [], Changed = False, TotalFolded = Count \<rparr>"
  have erase_le: "length (concat (fold eraseFromParent ps G)) \<le> length (concat G)" for ps G
  proof (induction ps arbitrary: G)
    case Nil
    show ?case by simp
  next
    case (Cons p ps)
    have "length (concat (eraseFromParent p G)) \<le> length (concat G)"
      unfolding eraseFromParent_def
      by (induction G) (simp_all add: le_trans [OF length_filter_le] add_mono)
    with Cons [of "eraseFromParent p G"] show ?case
      by simp
  qed
  have erase_less: "length (concat (eraseFromParent p G)) < length (concat G)"
    if "p \<in> iid ` set (concat G)" for p G
    using that unfolding eraseFromParent_def
  proof (induction G)
    case Nil
    then show ?case by simp
  next
    case (Cons B G)
    have le1: "length (filter (\<lambda>I. iid I \<noteq> p) B) \<le> length B"
      by (rule length_filter_le)
    have le2: "length (concat (map (filter (\<lambda>I. iid I \<noteq> p)) G)) \<le> length (concat G)"
      by (induction G) (simp_all add: add_mono)
    show ?case
    proof (cases "p \<in> iid ` set B")
      case True
      then obtain I where "I \<in> set B" "\<not> iid I \<noteq> p"
        by auto
      then have "length (filter (\<lambda>I. iid I \<noteq> p) B) < length B"
        by (rule length_filter_less)
      with le2 show ?thesis by simp
    next
      case False
      with Cons.prems have "p \<in> iid ` set (concat G)"
        by auto
      from Cons.IH [OF this] le1 show ?thesis
        by (simp add: add_le_less_mono)
    qed
  qed
  have inv: "map (map iid) (function_body (fold (foldInstruction Fold) ps T)) = map (map iid) (function_body T)
      \<and> (set (Scheduled T) \<subseteq> iid ` set (concat (function_body T))
           \<longrightarrow> set (Scheduled (fold (foldInstruction Fold) ps T)) \<subseteq> iid ` set (concat (function_body T)))
      \<and> ((Changed T \<longrightarrow> Scheduled T \<noteq> [])
           \<longrightarrow> Changed (fold (foldInstruction Fold) ps T) \<longrightarrow> Scheduled (fold (foldInstruction Fold) ps T) \<noteq> [])" for ps T
  proof (induction ps arbitrary: T)
    case Nil
    show ?case by simp
  next
    case (Cons p ps)
    let ?T = "foldInstruction Fold p T"
    have ids: "map (map iid) (function_body ?T) = map (map iid) (function_body T)"
      by (simp add: foldInstruction_def replaceAndScheduleRemoval_def replaceAllUsesWith_def
            comp_def split: option.split)
    then have cids: "iid ` set (concat (function_body ?T)) = iid ` set (concat (function_body T))"
      by (metis map_concat set_map)
    have mem: "deref (function_body T) p = Some I \<Longrightarrow> p \<in> iid ` set (concat (function_body T))" for I
      unfolding deref_def find_Some_iff by (metis nth_mem imageI)
    have sch: "set (Scheduled T) \<subseteq> iid ` set (concat (function_body T))
          \<Longrightarrow> set (Scheduled ?T) \<subseteq> iid ` set (concat (function_body T))"
      using mem by (auto simp: foldInstruction_def replaceAndScheduleRemoval_def split: option.split)
    have chg: "(Changed T \<longrightarrow> Scheduled T \<noteq> []) \<Longrightarrow> (Changed ?T \<longrightarrow> Scheduled ?T \<noteq> [])"
      by (auto simp: foldInstruction_def replaceAndScheduleRemoval_def split: option.split)
    from Cons [of ?T] ids cids sch chg show ?case
      by simp
  qed
  let ?S1 = "fold (foldInstruction Fold) (map iid (concat F)) S0"
  from inv [of "map iid (concat F)" S0]
  have i1: "map (map iid) (function_body ?S1) = map (map iid) F"
    and i2: "set (Scheduled ?S1) \<subseteq> iid ` set (concat F)"
    and i3: "Changed ?S1 \<longrightarrow> Scheduled ?S1 \<noteq> []"
    by (simp_all add: S0_def)
  from i1 have len: "length (concat (function_body ?S1)) = length (concat F)"
    by (metis length_map map_concat)
  from i1 have cids: "iid ` set (concat (function_body ?S1)) = iid ` set (concat F)"
    by (metis map_concat set_map)
  from S C have "Changed ?S1"
    by (simp add: sweep_def S0_def Let_def)
  with i3 obtain p ps where ps: "Scheduled ?S1 = p # ps"
    by (cases "Scheduled ?S1") auto
  with i2 cids have "p \<in> iid ` set (concat (function_body ?S1))"
    by auto
  from erase_less [OF this] erase_le [of ps "eraseFromParent p (function_body ?S1)"] len
  have "length (concat (fold eraseFromParent (Scheduled ?S1) (function_body ?S1))) < length (concat F)"
    by (simp add: ps)
  then show "((Fold, function_body S, TotalFolded S), (Fold, F, Count))
       \<in> measure (\<lambda>(Fold, F, Count). length (concat F))"
    by (simp add: S sweep_def S0_def Let_def)
qed

declare foldToFixedPoint.simps [simp del]

text \<open>
  \<open>ConstantFoldingPass::run\<close>. The flag returned is true for \<open>PreservedAnalyses::all()\<close>
  and false for \<open>PreservedAnalyses::none()\<close>.
\<close>

definition ConstantFoldingPass_run :: "folder \<Rightarrow> BasicBlock list \<Rightarrow> BasicBlock list \<times> bool" where
  "ConstantFoldingPass_run Fold F =
     (let Visitor = fold (\<lambda>I V. snd (visit Fold I V)) (concat F) newVisitor in
      if FoldingCandidates Visitor = [] then (F, True)
      else
        (let (F1, Count) = foldToFixedPoint Fold F 0 in
         if 0 < Count then (F1, False) else (F1, True)))"

text \<open>
  An evaluator for the examples: it folds an integer addition of two constants and a
  \<open>freeze\<close> of a constant, as \<open>ConstantFoldInstruction\<close> does, and nothing else. The body
  \<open>freezeBody\<close> is \<open>%1 = freeze i32 7; ret i32 %1\<close>, and \<open>addFreezeBody\<close> is the same after
  \<open>%0 = add i32 1, 2\<close>.
\<close>

definition foldExample :: folder where
  "foldExample I =
     (if getOpcode I = BinaryOp Add then
        (case operands I of [ConstV a, ConstV b] \<Rightarrow> Some (a + b) | _ \<Rightarrow> None)
      else if getOpcode I = OtherOp Freeze then
        (case operands I of [ConstV a] \<Rightarrow> Some a | _ \<Rightarrow> None)
      else None)"

definition freezeBody :: "BasicBlock list" where
  "freezeBody = [[mkInst 1 (OtherOp Freeze) 32 [ConstV 7],
                  mkInst 2 (TermOp Ret) 0 [InstV 1]]]"

definition addFreezeBody :: "BasicBlock list" where
  "addFreezeBody = [[mkInst 0 (BinaryOp Add) 32 [ConstV 1, ConstV 2],
                     mkInst 1 (OtherOp Freeze) 32 [ConstV 7],
                     mkInst 2 (TermOp Ret) 0 [InstV 1]]]"

text \<open>
  An instruction that the fixed point excludes: all its operands are constants and its
  constant evaluation is defined.
\<close>

definition foldable :: "folder \<Rightarrow> Instruction \<Rightarrow> bool" where
  "foldable Fold I = (allOperandsConstant I \<and> Fold I \<noteq> None)"

section \<open>Instructions that are not analyzable\<close>





section \<open>Order of candidates and of map entries\<close>








section \<open>Loop analysis: strategy and unroll factor\<close>

lemma computeTripCount_eq: "computeTripCount l = getSmallConstantTripCount l"
  by (simp add: computeTripCount_def Let_def word_gt_0)

lemma analyzeLoop_fields:
  "TripCount (analyzeLoop Config l) = getSmallConstantTripCount l"
  "InstructionCount (analyzeLoop Config l) = countInstructions l"
  "HasSideEffects (analyzeLoop Config l) = hasSideEffects l"
  "IsSimple (analyzeLoop Config l) = isSimpleLoop l"
  by (simp_all add: analyzeLoop_def Let_def newCandidate_def computeTripCount_eq)

lemma analyzeLoop_Strategy:
  "Strategy (analyzeLoop Config l) =
     (if hasSideEffects l \<and> \<not> UnrollLoopsWithCalls Config then NoUnroll
      else if 0 < getSmallConstantTripCount l \<and>
              getSmallConstantTripCount l \<le> FullUnrollMaxCount Config \<and>
              countInstructions l * getSmallConstantTripCount l
                \<le> FullUnrollMaxInstructions Config
           then FullUnroll
      else if 0 < getSmallConstantTripCount l then PartialUnroll
      else if AllowRuntimeUnroll Config \<and> isSimpleLoop l then RuntimeUnroll
      else NoUnroll)"
  by (simp add: analyzeLoop_def Let_def newCandidate_def computeTripCount_eq determineStrategy_def)

lemma analyzeLoop_UnrollFactor:
  "UnrollFactor (analyzeLoop Config l) =
     (case Strategy (analyzeLoop Config l) of
        FullUnroll \<Rightarrow> getSmallConstantTripCount l
      | PartialUnroll \<Rightarrow>
          sizeLoop (countInstructions l) (MaxUnrolledSize Config)
            (divideLoop (getSmallConstantTripCount l) (PartialUnrollFactor Config))
      | RuntimeUnroll \<Rightarrow> PartialUnrollFactor Config
      | NoUnroll \<Rightarrow> 1)"
  by (simp add: analyzeLoop_def Let_def newCandidate_def computeTripCount_eq calculateUnrollFactor_def
        split: UnrollStrategy.split)

lemma word_mult_no_overflow:
  fixes a b c :: u32
  assumes "unat a * unat b \<le> unat c"
  shows "a * b \<le> c"
proof -
  have "unat c < 2 ^ LENGTH(32)" by (rule unsigned_less)
  with assms have "unat a * unat b < 2 ^ LENGTH(32)" by (rule le_less_trans)
  then have "unat (a * b) = unat a * unat b" by (rule unat_mult_lem [THEN iffD1])
  with assms show ?thesis by (simp add: word_le_nat_alt)
qed

text \<open>
  Claim C6. A loop that passes the side-effect guard, with
  \<open>0 < trip_count \<le> FullUnrollMaxCount\<close> and
  \<open>trip_count * instruction_count \<le> FullUnrollMaxInstructions\<close> (as numbers), is given
  the strategy \<open>FullUnroll\<close> with unroll factor \<open>trip_count\<close>; the same loop with trip
  count \<open>FullUnrollMaxCount + 1\<close> is not given \<open>FullUnroll\<close>.
\<close>

theorem full_unroll_boundary:
  "(\<not> (hasSideEffects (Loop bs tc tm ph la subs) \<and> \<not> UnrollLoopsWithCalls Config) \<and>
    0 < tc \<and> tc \<le> FullUnrollMaxCount Config \<and>
    unat tc * unat (countInstructions (Loop bs tc tm ph la subs))
       \<le> unat (FullUnrollMaxInstructions Config)
    \<longrightarrow> Strategy (analyzeLoop Config (Loop bs tc tm ph la subs)) = FullUnroll \<and>
        UnrollFactor (analyzeLoop Config (Loop bs tc tm ph la subs)) = tc)
   \<and> Strategy (analyzeLoop Config (Loop bs (FullUnrollMaxCount Config + 1) tm ph la subs))
       \<noteq> FullUnroll"
proof (intro conjI impI)
  let ?l = "Loop bs tc tm ph la subs"
  assume h: "\<not> (hasSideEffects ?l \<and> \<not> UnrollLoopsWithCalls Config) \<and>
    0 < tc \<and> tc \<le> FullUnrollMaxCount Config \<and>
    unat tc * unat (countInstructions ?l) \<le> unat (FullUnrollMaxInstructions Config)"
  then have "unat (countInstructions ?l) * unat tc \<le> unat (FullUnrollMaxInstructions Config)"
    by (simp add: mult.commute)
  then have "countInstructions ?l * tc \<le> FullUnrollMaxInstructions Config"
    by (rule word_mult_no_overflow)
  with h show s: "Strategy (analyzeLoop Config ?l) = FullUnroll"
    by (simp add: analyzeLoop_Strategy)
  show "UnrollFactor (analyzeLoop Config ?l) = tc"
    by (simp add: analyzeLoop_UnrollFactor s)
next
  let ?m = "FullUnrollMaxCount Config"
  have "\<not> (0 < ?m + 1 \<and> ?m + 1 \<le> ?m)"
    by (auto simp: inc_less_eq_self_iff_eq)
  then show "Strategy (analyzeLoop Config (Loop bs (?m + 1) tm ph la subs)) \<noteq> FullUnroll"
    by (auto simp add: analyzeLoop_Strategy)
qed

lemma word_pred_ge1:
  fixes f :: u32
  assumes "1 < f"
  shows "1 \<le> f - 1"
  using assms by unat_arith

lemma word_le_pred_or_eq:
  fixes f g :: u32
  assumes "g \<le> f" "1 < f"
  shows "g \<le> f - 1 \<or> g = f"
  using assms by unat_arith

lemma word_pred_le:
  fixes f :: u32
  assumes "1 < f"
  shows "f - 1 \<le> f"
  using assms by unat_arith

lemma divideLoop_step:
  "1 < f \<and> tc mod f \<noteq> 0 \<Longrightarrow> divideLoop tc f = divideLoop tc (f - 1)"
  by (subst divideLoop.simps) simp

lemma divideLoop_stop:
  "\<not> (1 < f \<and> tc mod f \<noteq> 0) \<Longrightarrow> divideLoop tc f = f"
  by (subst divideLoop.simps) (rule if_not_P)

lemma sizeLoop_step:
  "1 < f \<and> mx < ic * f \<Longrightarrow> sizeLoop ic mx f = sizeLoop ic mx (f - 1)"
  by (subst sizeLoop.simps) (rule if_P)

lemma sizeLoop_stop:
  "\<not> (1 < f \<and> mx < ic * f) \<Longrightarrow> sizeLoop ic mx f = f"
  by (subst sizeLoop.simps) (rule if_not_P)



lemma divideLoop_props:
  "1 \<le> f \<Longrightarrow>
     1 \<le> divideLoop tc f \<and> divideLoop tc f \<le> f \<and> tc mod divideLoop tc f = 0 \<and>
     (\<forall>g. divideLoop tc f < g \<and> g \<le> f \<longrightarrow> tc mod g \<noteq> 0)"
proof (induction tc f rule: divideLoop.induct)
  case (1 TC Factor)
  show ?case
  proof (cases "1 < Factor \<and> TC mod Factor \<noteq> 0")
    case True
    then have eq: "divideLoop TC Factor = divideLoop TC (Factor - 1)"
      by (rule divideLoop_step)
    from True have gt: "1 < Factor" by (rule conjunct1)
    from True have nd: "TC mod Factor \<noteq> 0" by (rule conjunct2)
    from gt have ge: "1 \<le> Factor - 1" by (rule word_pred_ge1)
    note ih = "1.IH" [OF True ge]
    note ih1 = ih [THEN conjunct1]
    note ih2 = ih [THEN conjunct2, THEN conjunct1]
    note ih3 = ih [THEN conjunct2, THEN conjunct2, THEN conjunct1]
    note ih4 = ih [THEN conjunct2, THEN conjunct2, THEN conjunct2]
    have le: "Factor - 1 \<le> Factor" using gt by (rule word_pred_le)
    have all: "\<forall>g. divideLoop TC (Factor - 1) < g \<and> g \<le> Factor \<longrightarrow> TC mod g \<noteq> 0"
    proof (intro allI impI)
      fix g assume g: "divideLoop TC (Factor - 1) < g \<and> g \<le> Factor"
      then have "g \<le> Factor" by blast
      then have "g \<le> Factor - 1 \<or> g = Factor" using gt by (rule word_le_pred_or_eq)
      then show "TC mod g \<noteq> 0"
      proof (elim disjE)
        assume "g \<le> Factor - 1"
        with g [THEN conjunct1] have "divideLoop TC (Factor - 1) < g \<and> g \<le> Factor - 1"
          by (rule conjI)
        with ih4 [THEN spec, of g] show ?thesis by (rule mp)
      next
        assume e: "g = Factor"
        show ?thesis unfolding e by (rule nd)
      qed
    qed
    show ?thesis unfolding eq
      by (intro conjI) (rule ih1, rule order_trans [OF ih2 le], rule ih3, rule all)
  next
    case False
    then have eq: "divideLoop TC Factor = Factor"
      by (rule divideLoop_stop)
    have m: "TC mod Factor = 0"
    proof (cases "1 < Factor")
      case True
      show ?thesis
      proof (rule ccontr)
        assume "TC mod Factor \<noteq> 0"
        with True have "1 < Factor \<and> TC mod Factor \<noteq> 0" by (rule conjI)
        with False show False by (rule notE)
      qed
    next
      case False
      then have "Factor \<le> 1" by (simp only: not_less)
      then have "Factor = 1" using "1.prems" by (rule order_antisym)
      then show ?thesis by (simp only: mod_by_1)
    qed
    have all: "\<forall>g. Factor < g \<and> g \<le> Factor \<longrightarrow> TC mod g \<noteq> 0"
    proof (intro allI impI)
      fix g assume a: "Factor < g \<and> g \<le> Factor"
      from a [THEN conjunct1] a [THEN conjunct2] have "Factor < Factor" by (rule less_le_trans)
      then have False by (simp only: less_irrefl)
      then show "TC mod g \<noteq> 0" ..
    qed
    show ?thesis unfolding eq
      by (intro conjI) (rule "1.prems", rule order_refl, rule m, rule all)
  qed
qed



lemma sizeLoop_le: "sizeLoop ic mx f \<le> f"
proof (induction ic mx f rule: sizeLoop.induct)
  case (1 IC MaxSize Factor)
  show ?case
  proof (cases "1 < Factor \<and> MaxSize < IC * Factor")
    case True
    then have "1 < Factor" by blast
    then have "Factor - 1 \<le> Factor" by (rule word_pred_le)
    with "1.IH" [OF True] show ?thesis
      unfolding sizeLoop_step [OF True] by (rule order_trans)
  next
    case False
    show ?thesis unfolding sizeLoop_stop [OF False] by (rule order_refl)
  qed
qed



lemma sizeLoop_ge1: "1 \<le> f \<Longrightarrow> 1 \<le> sizeLoop ic mx f"
proof (induction ic mx f rule: sizeLoop.induct)
  case (1 IC MaxSize Factor)
  show ?case
  proof (cases "1 < Factor \<and> MaxSize < IC * Factor")
    case True
    then have "1 < Factor" by blast
    then have "1 \<le> Factor - 1" by (rule word_pred_ge1)
    with "1.IH" [OF True] show ?thesis
      unfolding sizeLoop_step [OF True] by blast
  next
    case False
    from "1.prems" show ?thesis unfolding sizeLoop_stop [OF False] .
  qed
qed



lemma sizeLoop_fits:
  "sizeLoop ic mx f \<le> 1 \<or> ic * sizeLoop ic mx f \<le> mx"
proof (induction ic mx f rule: sizeLoop.induct)
  case (1 IC MaxSize Factor)
  show ?case
  proof (cases "1 < Factor \<and> MaxSize < IC * Factor")
    case True
    with "1.IH" [OF True] show ?thesis
      unfolding sizeLoop_step [OF True] by blast
  next
    case False
    then have eq: "sizeLoop IC MaxSize Factor = Factor"
      by (rule sizeLoop_stop)
    from False have "\<not> 1 < Factor \<or> \<not> MaxSize < IC * Factor" by blast
    then have "Factor \<le> 1 \<or> IC * Factor \<le> MaxSize"
      by (simp only: not_less)
    then show ?thesis unfolding eq .
  qed
qed



lemma sizeLoop_id: "ic * f \<le> mx \<Longrightarrow> sizeLoop ic mx f = f"
proof -
  assume "ic * f \<le> mx"
  then have "\<not> mx < ic * f" by (simp only: not_less)
  then have "\<not> (1 < f \<and> mx < ic * f)" by blast
  then show ?thesis by (rule sizeLoop_stop)
qed

lemma specPartialFactor_hit:
  "1 < Suc n \<and> Suc n dvd tc \<and> Suc n * ic \<le> mx \<Longrightarrow> specPartialFactor (Suc n) mx tc ic = Suc n"
  by (subst specPartialFactor.simps) (rule if_P)

lemma specPartialFactor_miss:
  "\<not> (1 < Suc n \<and> Suc n dvd tc \<and> Suc n * ic \<le> mx) \<Longrightarrow>
   specPartialFactor (Suc n) mx tc ic = specPartialFactor n mx tc ic"
  by (subst specPartialFactor.simps) (rule if_not_P)

lemma specPartialFactor_eq:
  "(r = 1 \<or> (2 \<le> r \<and> r \<le> n \<and> r dvd tc \<and> r * ic \<le> mx)) \<Longrightarrow>
   (\<forall>G. r < G \<and> G \<le> n \<longrightarrow> \<not> (G dvd tc \<and> G * ic \<le> mx)) \<Longrightarrow>
   specPartialFactor n mx tc ic = r"
proof (induction n)
  case 0
  then show ?case by auto
next
  case (Suc n)
  show ?case
  proof (cases "r = Suc n")
    case True
    show ?thesis
    proof (cases "n = 0")
      case True
      with \<open>r = Suc n\<close> show ?thesis by (simp del: One_nat_def)
    next
      case False
      with True have "r \<noteq> 1" by simp
      with Suc.prems(1) have h: "r dvd tc \<and> r * ic \<le> mx" by blast
      have "1 < Suc n" using False by simp
      moreover have "Suc n dvd tc \<and> Suc n * ic \<le> mx" using h unfolding True .
      ultimately have c: "1 < Suc n \<and> Suc n dvd tc \<and> Suc n * ic \<le> mx" by blast
      then have "specPartialFactor (Suc n) mx tc ic = Suc n" by (rule specPartialFactor_hit)
      with True show ?thesis by simp
    qed
  next
    case False
    with Suc.prems(1) have a: "r = 1 \<or> (2 \<le> r \<and> r \<le> n \<and> r dvd tc \<and> r * ic \<le> mx)"
      by (metis le_SucE)
    from Suc.prems(2) have b: "\<forall>G. r < G \<and> G \<le> n \<longrightarrow> \<not> (G dvd tc \<and> G * ic \<le> mx)"
      by (metis le_SucI)
    have c: "\<not> (1 < Suc n \<and> Suc n dvd tc \<and> Suc n * ic \<le> mx)"
    proof
      assume d: "1 < Suc n \<and> Suc n dvd tc \<and> Suc n * ic \<le> mx"
      from a False d have "r < Suc n" by linarith
      with Suc.prems(2) d show False by blast
    qed
    then have "specPartialFactor (Suc n) mx tc ic = specPartialFactor n mx tc ic"
      by (rule specPartialFactor_miss)
    with Suc.IH [OF a b] show ?thesis by simp
  qed
qed

lemma word_mod_0_dvd:
  fixes a b :: u32
  shows "a mod b = 0 \<longleftrightarrow> unat b dvd unat a"
proof -
  have "a mod b = 0 \<longleftrightarrow> unat (a mod b) = 0" by (simp only: unat_0_iff)
  also have "\<dots> \<longleftrightarrow> unat a mod unat b = 0" by (simp only: unat_mod)
  also have "\<dots> \<longleftrightarrow> unat b dvd unat a" by (rule mod_eq_0_iff_dvd)
  finally show ?thesis .
qed

lemma in_depth_first: "l \<in> set (depth_first l)"
  by (cases l) simp

lemma partial_factor_bounds:
  assumes pf: "1 \<le> pf"
  shows "1 \<le> sizeLoop ic mx (divideLoop tc pf) \<and> sizeLoop ic mx (divideLoop tc pf) \<le> pf"
proof
  from divideLoop_props [OF pf, of tc] have d1: "1 \<le> divideLoop tc pf" by (rule conjunct1)
  then show "1 \<le> sizeLoop ic mx (divideLoop tc pf)" by (rule sizeLoop_ge1)
  from divideLoop_props [OF pf, of tc] have d2: "divideLoop tc pf \<le> pf"
    by (rule conjunct2 [THEN conjunct1])
  have "sizeLoop ic mx (divideLoop tc pf) \<le> divideLoop tc pf" by (rule sizeLoop_le)
  then show "sizeLoop ic mx (divideLoop tc pf) \<le> pf" using d2 by (rule order_trans)
qed

lemma partial_factor_spec:
  assumes pf: "1 \<le> pf"
    and fit: "\<forall>G. 1 \<le> G \<and> G \<le> unat pf \<and> G dvd unat tc \<longrightarrow> G * unat ic \<le> unat mx"
  shows "unat (sizeLoop ic mx (divideLoop tc pf)) =
         specPartialFactor (unat pf) (unat mx) (unat tc) (unat ic)"
proof -
  let ?d = "divideLoop tc pf"
  note p = divideLoop_props [OF pf, of tc]
  note d1 = p [THEN conjunct1]
  note d2 = p [THEN conjunct2, THEN conjunct1]
  note d3 = p [THEN conjunct2, THEN conjunct2, THEN conjunct1]
  note d4 = p [THEN conjunct2, THEN conjunct2, THEN conjunct2]
  from d1 have u1: "1 \<le> unat ?d" by (simp only: word_le_nat_alt unat_1)
  from d2 have u2: "unat ?d \<le> unat pf" by (simp only: word_le_nat_alt)
  from d3 have u3: "unat ?d dvd unat tc" by (simp only: word_mod_0_dvd)
  from u1 u2 u3 have "1 \<le> unat ?d \<and> unat ?d \<le> unat pf \<and> unat ?d dvd unat tc" by blast
  with fit [THEN spec, of "unat ?d"] have u4: "unat ?d * unat ic \<le> unat mx" by (rule mp)
  then have "unat ic * unat ?d \<le> unat mx" by (simp only: mult.commute)
  then have "ic * ?d \<le> mx" by (rule word_mult_no_overflow)
  then have eq: "sizeLoop ic mx ?d = ?d" by (rule sizeLoop_id)
  have a: "unat ?d = 1 \<or> (2 \<le> unat ?d \<and> unat ?d \<le> unat pf \<and> unat ?d dvd unat tc \<and>
            unat ?d * unat ic \<le> unat mx)"
    using u1 u2 u3 u4 by linarith
  have b: "\<forall>G. unat ?d < G \<and> G \<le> unat pf \<longrightarrow> \<not> (G dvd unat tc \<and> G * unat ic \<le> unat mx)"
  proof (intro allI impI)
    fix G assume g: "unat ?d < G \<and> G \<le> unat pf"
    let ?g = "word_of_nat G :: u32"
    from g [THEN conjunct2] have ug: "unat ?g = G" by (rule le_unat_uoi)
    from g [THEN conjunct1] have "?d < ?g" by (simp only: word_less_nat_alt ug)
    moreover from g [THEN conjunct2] have "?g \<le> pf" by (simp only: word_le_nat_alt ug)
    ultimately have "?d < ?g \<and> ?g \<le> pf" by (rule conjI)
    with d4 [THEN spec, of ?g] have "tc mod ?g \<noteq> 0" by (rule mp)
    then have "\<not> G dvd unat tc" unfolding word_mod_0_dvd ug .
    then show "\<not> (G dvd unat tc \<and> G * unat ic \<le> unat mx)" by blast
  qed
  from a b have "specPartialFactor (unat pf) (unat mx) (unat tc) (unat ic) = unat ?d"
    by (rule specPartialFactor_eq)
  then show ?thesis by (simp only: eq)
qed

text \<open>
  What the two loops of \<open>calculateUnrollFactor\<close> do establish. A loop of the nest, with a
  known trip count, that passes the side-effect guard and is not fully unrolled is given
  the strategy \<open>PartialUnroll\<close> and is a candidate of \<open>getCandidates\<close> whatever its
  factor; the factor \<open>F\<close> lies between 1 and \<open>PartialUnrollFactor\<close>, and \<open>F \<le> 1\<close> or
  \<open>instruction_count * F \<le> MaxUnrolledSize\<close> in 32-bit arithmetic. When every divisor
  of the trip count up to \<open>PartialUnrollFactor\<close> fits the size limit, the second loop
  changes nothing and \<open>F\<close> is the factor the specification prescribes.
\<close>

theorem partial_unroll_factor:
  assumes tc: "0 < getSmallConstantTripCount l"
    and se: "\<not> (hasSideEffects l \<and> \<not> UnrollLoopsWithCalls Config)"
    and nf: "Strategy (analyzeLoop Config l) \<noteq> FullUnroll"
    and pf: "1 \<le> PartialUnrollFactor Config"
  shows "Strategy (analyzeLoop Config l) = PartialUnroll \<and>
         (l \<in> set (concat (map depth_first LI))
            \<longrightarrow> analyzeLoop Config l \<in> set (getCandidates Config LI)) \<and>
         1 \<le> UnrollFactor (analyzeLoop Config l) \<and>
         UnrollFactor (analyzeLoop Config l) \<le> PartialUnrollFactor Config \<and>
         (UnrollFactor (analyzeLoop Config l) \<le> 1 \<or>
          countInstructions l * UnrollFactor (analyzeLoop Config l) \<le> MaxUnrolledSize Config) \<and>
         ((\<forall>G. 1 \<le> G \<and> G \<le> unat (PartialUnrollFactor Config) \<and>
               G dvd unat (getSmallConstantTripCount l)
               \<longrightarrow> G * unat (countInstructions l) \<le> unat (MaxUnrolledSize Config))
          \<longrightarrow> unat (UnrollFactor (analyzeLoop Config l)) =
              specPartialFactor (unat (PartialUnrollFactor Config)) (unat (MaxUnrolledSize Config))
                (unat (getSmallConstantTripCount l)) (unat (countInstructions l)))"
proof -
  let ?F = "sizeLoop (countInstructions l) (MaxUnrolledSize Config)
              (divideLoop (getSmallConstantTripCount l) (PartialUnrollFactor Config))"
  from tc se nf have s: "Strategy (analyzeLoop Config l) = PartialUnroll"
    by (simp add: analyzeLoop_Strategy split: if_splits)
  then have f: "UnrollFactor (analyzeLoop Config l) = ?F"
    by (simp add: analyzeLoop_UnrollFactor)
  have c: "l \<in> set (concat (map depth_first LI))
            \<longrightarrow> analyzeLoop Config l \<in> set (getCandidates Config LI)"
  proof
    assume "l \<in> set (concat (map depth_first LI))"
    then have "analyzeLoop Config l \<in> analyzeLoop Config ` set (concat (map depth_first LI))"
      by (rule imageI)
    then show "analyzeLoop Config l \<in> set (getCandidates Config LI)"
      using s by (simp add: getCandidates_def del: set_concat)
  qed
  note b = partial_factor_bounds [OF pf, of "countInstructions l" "MaxUnrolledSize Config"
      "getSmallConstantTripCount l"]
  have fits: "?F \<le> 1 \<or> countInstructions l * ?F \<le> MaxUnrolledSize Config"
    by (rule sizeLoop_fits)
  have sp: "(\<forall>G. 1 \<le> G \<and> G \<le> unat (PartialUnrollFactor Config) \<and>
               G dvd unat (getSmallConstantTripCount l)
               \<longrightarrow> G * unat (countInstructions l) \<le> unat (MaxUnrolledSize Config))
          \<longrightarrow> unat ?F =
              specPartialFactor (unat (PartialUnrollFactor Config)) (unat (MaxUnrolledSize Config))
                (unat (getSmallConstantTripCount l)) (unat (countInstructions l))"
    using partial_factor_spec [OF pf] by (rule impI)
  show ?thesis unfolding f
    by (intro conjI) (rule s, rule c, rule b [THEN conjunct1], rule b [THEN conjunct2],
        rule fits, rule sp)
qed

lemma count_pure: "countInstructions (Loop pureCallBody tc tm ph la subs) = 4"
  by (simp add: countInstructions_def pureCallBody_def mkInst_def isPHINode_def isTerminator_def)

lemma se_pure: "hasSideEffects (Loop pureCallBody tc tm ph la subs) = False"
  by (simp add: hasSideEffects_def pureCallBody_def mkInst_def instrHasSideEffects_def isCallInst_def)

lemma se_impure: "hasSideEffects (Loop impureCallBody tc tm ph la subs) = True"
  by (simp add: hasSideEffects_def impureCallBody_def mkInst_def instrHasSideEffects_def isCallInst_def)


text \<open>
  Claim C3. A loop with a known trip count that is not fully unrolled is to be partially
  unrolled by the largest \<open>F \<le> 4\<close> that divides the trip count and keeps
  \<open>F * instruction_count \<le> 400\<close>. The code does not do this: for a loop without side
  effects, with trip count 16 and 120 instructions, the first loop of
  \<open>calculateUnrollFactor\<close> keeps the factor 4, and the second lowers it to 3 for the size
  limit without looking at the trip count again. The code returns 3, which does not divide
  16, where 2 divides 16 and fits the limit, the factor the specification prescribes.
\<close>

theorem partial_unroll_factor_divergence:
  "getSmallConstantTripCount (Loop (bigBody 120) 16 1 True True []) = 16 \<and>
   countInstructions (Loop (bigBody 120) 16 1 True True []) = 120 \<and>
   hasSideEffects (Loop (bigBody 120) 16 1 True True []) = False \<and>
   Strategy (analyzeLoop defaultConfig (Loop (bigBody 120) 16 1 True True [])) = PartialUnroll \<and>
   UnrollFactor (analyzeLoop defaultConfig (Loop (bigBody 120) 16 1 True True [])) = 3 \<and>
   specPartialFactor 4 400 16 120 = 2 \<and>
   \<not> (3::nat) dvd 16"
  by code_simp

text \<open>
  The hypotheses of \<open>partial_unroll_factor\<close> hold for a loop with trip count 7 and 20
  instructions, whose factor is 1 and which is still a candidate.
\<close>

theorem partial_unroll_factor_witness:
  "Strategy (analyzeLoop defaultConfig (Loop (bigBody 20) 7 1 True True [])) = PartialUnroll \<and>
   analyzeLoop defaultConfig (Loop (bigBody 20) 7 1 True True [])
     \<in> set (getCandidates defaultConfig [Loop (bigBody 20) 7 1 True True []]) \<and>
   UnrollFactor (analyzeLoop defaultConfig (Loop (bigBody 20) 7 1 True True [])) = 1 \<and>
   specPartialFactor 4 400 7 20 = 1"
proof -
  let ?l = "Loop (bigBody 20) 7 1 True True []"
  have tc: "0 < getSmallConstantTripCount ?l" by simp
  have se: "\<not> (hasSideEffects ?l \<and> \<not> UnrollLoopsWithCalls defaultConfig)" by code_simp
  have nf: "Strategy (analyzeLoop defaultConfig ?l) \<noteq> FullUnroll" by code_simp
  have pf: "1 \<le> PartialUnrollFactor defaultConfig" by (simp add: defaultConfig_def)
  have ic: "countInstructions ?l = 20" by code_simp
  have fit: "\<forall>G. 1 \<le> G \<and> G \<le> unat (PartialUnrollFactor defaultConfig) \<and>
               G dvd unat (getSmallConstantTripCount ?l)
               \<longrightarrow> G * unat (countInstructions ?l) \<le> unat (MaxUnrolledSize defaultConfig)"
    by (simp add: defaultConfig_def ic)
  have sp: "specPartialFactor 4 400 7 20 = 1" by code_simp
  note t = partial_unroll_factor [OF tc se nf pf, of "[?l]"]
  from t have a: "Strategy (analyzeLoop defaultConfig ?l) = PartialUnroll" by (rule conjunct1)
  have m: "?l \<in> set (concat (map depth_first [?l]))" by simp
  from t have "?l \<in> set (concat (map depth_first [?l]))
      \<longrightarrow> analyzeLoop defaultConfig ?l \<in> set (getCandidates defaultConfig [?l])"
    by (rule conjunct2 [THEN conjunct1])
  then have b: "analyzeLoop defaultConfig ?l \<in> set (getCandidates defaultConfig [?l])"
    using m by (rule mp)
  from t fit have "unat (UnrollFactor (analyzeLoop defaultConfig ?l)) =
              specPartialFactor (unat (PartialUnrollFactor defaultConfig))
                (unat (MaxUnrolledSize defaultConfig))
                (unat (getSmallConstantTripCount ?l)) (unat (countInstructions ?l))"
    by blast
  then have "unat (UnrollFactor (analyzeLoop defaultConfig ?l)) = 1"
    by (simp add: defaultConfig_def ic sp)
  then have c: "UnrollFactor (analyzeLoop defaultConfig ?l) = 1"
    by (simp add: word_unat_eq_iff)
  from a b c sp show ?thesis by blast
qed

text \<open>The hypotheses of C6 hold for a loop with trip count 8 and 4 counted instructions.\<close>

theorem full_unroll_boundary_witness:
  "Strategy (analyzeLoop defaultConfig (Loop pureCallBody 8 1 True True [])) = FullUnroll \<and>
   UnrollFactor (analyzeLoop defaultConfig (Loop pureCallBody 8 1 True True [])) = 8 \<and>
   Strategy (analyzeLoop defaultConfig (Loop pureCallBody 9 1 True True [])) \<noteq> FullUnroll"
proof -
  let ?l = "Loop pureCallBody 8 1 True True []"
  have h: "\<not> (hasSideEffects ?l \<and> \<not> UnrollLoopsWithCalls defaultConfig) \<and>
    0 < (8::u32) \<and> 8 \<le> FullUnrollMaxCount defaultConfig \<and>
    unat (8::u32) * unat (countInstructions ?l) \<le> unat (FullUnrollMaxInstructions defaultConfig)"
    by (simp add: se_pure count_pure defaultConfig_def)
  from full_unroll_boundary [of pureCallBody 8 1 True True "[]" defaultConfig] h
  show ?thesis by (simp add: defaultConfig_def)
qed

lemma hasSideEffects_instrs_iff:
  "hasSideEffects_instrs xs \<longleftrightarrow> (\<exists>I \<in> set xs. instrHasSideEffects I)"
  by (induction xs) simp_all

text \<open>
  The claim C7 as stated fails: a loop whose only call is to a function that does not
  access memory, with no volatile or atomic instruction and trip count 4, has no side
  effects for the analyzer and is fully unrolled under the default configuration.
\<close>

theorem pure_call_counterexample:
  "UnrollLoopsWithCalls defaultConfig = False \<and>
   map getCalledFunction (filter isCallInst (concat pureCallBody)) = [Some (Callee True)] \<and>
   list_all (\<lambda>I. \<not> isVolatile I \<and> \<not> isAtomic I) (concat pureCallBody) \<and>
   HasSideEffects (analyzeLoop defaultConfig (Loop pureCallBody 4 1 True True [])) = False \<and>
   Strategy (analyzeLoop defaultConfig (Loop pureCallBody 4 1 True True [])) = FullUnroll \<and>
   Strategy (analyzeLoop defaultConfig (Loop pureCallBody 4 1 True True [])) \<noteq> NoUnroll"
  by (simp add: analyzeLoop_Strategy analyzeLoop_fields se_pure count_pure defaultConfig_def)
     (simp add: pureCallBody_def mkInst_def isCallInst_def)

text \<open>
  Claim C7, as amended. With \<open>UnrollLoopsWithCalls = false\<close>: a loop whose body holds a
  call with an unknown callee or a callee that may access memory, or a volatile or atomic
  instruction, is given \<open>NoUnroll\<close>; a loop whose calls all go to functions that do not
  access memory, with no volatile or atomic instruction, has \<open>HasSideEffects = false\<close>,
  and with a known trip count its strategy is \<open>FullUnroll\<close> or \<open>PartialUnroll\<close>.
\<close>

theorem side_effect_guard:
  assumes nc: "\<not> UnrollLoopsWithCalls Config"
  shows "((\<exists>I \<in> set (concat (blocks l)).
            (isCallInst I \<and> (getCalledFunction I = None \<or>
               (\<exists>F. getCalledFunction I = Some F \<and> \<not> doesNotAccessMemory F)))
            \<or> isVolatile I \<or> isAtomic I)
          \<longrightarrow> Strategy (analyzeLoop Config l) = NoUnroll) \<and>
         ((\<forall>I \<in> set (concat (blocks l)).
            (isCallInst I \<longrightarrow> (\<exists>F. getCalledFunction I = Some F \<and> doesNotAccessMemory F))
            \<and> \<not> isVolatile I \<and> \<not> isAtomic I)
          \<longrightarrow> \<not> HasSideEffects (analyzeLoop Config l) \<and>
              (0 < getSmallConstantTripCount l \<longrightarrow>
                 Strategy (analyzeLoop Config l) = FullUnroll \<or>
                 Strategy (analyzeLoop Config l) = PartialUnroll))"
proof (intro conjI impI)
  assume "\<exists>I \<in> set (concat (blocks l)).
            (isCallInst I \<and> (getCalledFunction I = None \<or>
               (\<exists>F. getCalledFunction I = Some F \<and> \<not> doesNotAccessMemory F)))
            \<or> isVolatile I \<or> isAtomic I"
  then obtain I where I: "I \<in> set (concat (blocks l))"
    and c: "(isCallInst I \<and> (getCalledFunction I = None \<or>
               (\<exists>F. getCalledFunction I = Some F \<and> \<not> doesNotAccessMemory F)))
            \<or> isVolatile I \<or> isAtomic I" by blast
  from c have "instrHasSideEffects I"
    by (auto simp: instrHasSideEffects_def)
  with I have "hasSideEffects l"
    unfolding hasSideEffects_def hasSideEffects_instrs_iff by blast
  with nc show "Strategy (analyzeLoop Config l) = NoUnroll"
    by (simp add: analyzeLoop_Strategy)
next
  assume a: "\<forall>I \<in> set (concat (blocks l)).
            (isCallInst I \<longrightarrow> (\<exists>F. getCalledFunction I = Some F \<and> doesNotAccessMemory F))
            \<and> \<not> isVolatile I \<and> \<not> isAtomic I"
  have "\<not> hasSideEffects l"
    unfolding hasSideEffects_def hasSideEffects_instrs_iff
  proof
    assume "\<exists>I \<in> set (concat (blocks l)). instrHasSideEffects I"
    then obtain I where I: "I \<in> set (concat (blocks l))" and s: "instrHasSideEffects I" by blast
    from a I have "(isCallInst I \<longrightarrow> (\<exists>F. getCalledFunction I = Some F \<and> doesNotAccessMemory F))
            \<and> \<not> isVolatile I \<and> \<not> isAtomic I" by blast
    with s show False by (auto simp: instrHasSideEffects_def split: if_splits)
  qed
  then show n: "\<not> HasSideEffects (analyzeLoop Config l)" by (simp add: analyzeLoop_fields)
  assume "0 < getSmallConstantTripCount l"
  with \<open>\<not> hasSideEffects l\<close>
  show "Strategy (analyzeLoop Config l) = FullUnroll \<or>
        Strategy (analyzeLoop Config l) = PartialUnroll"
    by (simp add: analyzeLoop_Strategy)
qed

text \<open>Both hypotheses of the amended C7 hold at the two example loops.\<close>

theorem side_effect_guard_witness:
  "Strategy (analyzeLoop defaultConfig (Loop impureCallBody 4 1 True True [])) = NoUnroll \<and>
   HasSideEffects (analyzeLoop defaultConfig (Loop pureCallBody 4 1 True True [])) = False \<and>
   Strategy (analyzeLoop defaultConfig (Loop pureCallBody 4 1 True True [])) \<noteq> NoUnroll"
proof -
  have nc: "\<not> UnrollLoopsWithCalls defaultConfig" by (simp add: defaultConfig_def)
  have h1: "\<exists>I \<in> set (concat (blocks (Loop impureCallBody 4 1 True True []))).
            (isCallInst I \<and> (getCalledFunction I = None \<or>
               (\<exists>F. getCalledFunction I = Some F \<and> \<not> doesNotAccessMemory F)))
            \<or> isVolatile I \<or> isAtomic I"
    by (simp add: impureCallBody_def mkInst_def isCallInst_def)
  have h2: "\<forall>I \<in> set (concat (blocks (Loop pureCallBody 4 1 True True []))).
            (isCallInst I \<longrightarrow> (\<exists>F. getCalledFunction I = Some F \<and> doesNotAccessMemory F))
            \<and> \<not> isVolatile I \<and> \<not> isAtomic I"
    by (simp add: pureCallBody_def mkInst_def isCallInst_def)
  have h3: "0 < getSmallConstantTripCount (Loop pureCallBody 4 1 True True [])" by simp
  from side_effect_guard [OF nc, of "Loop impureCallBody 4 1 True True []"] h1
  have a: "Strategy (analyzeLoop defaultConfig (Loop impureCallBody 4 1 True True [])) = NoUnroll"
    by blast
  from side_effect_guard [OF nc, of "Loop pureCallBody 4 1 True True []"] h2 h3
  have b: "\<not> HasSideEffects (analyzeLoop defaultConfig (Loop pureCallBody 4 1 True True [])) \<and>
    (Strategy (analyzeLoop defaultConfig (Loop pureCallBody 4 1 True True [])) = FullUnroll \<or>
     Strategy (analyzeLoop defaultConfig (Loop pureCallBody 4 1 True True [])) = PartialUnroll)"
    by blast
  from a b show ?thesis by auto
qed

section \<open>Value numbering: keys, dominance and the expression table\<close>

lemma isCommutative_iff:
  "isCommutative Opc \<longleftrightarrow>
     Opc \<in> {BinaryOp Add, BinaryOp FAdd, BinaryOp Mul, BinaryOp FMul,
            BinaryOp And, BinaryOp Or, BinaryOp Xor}"
  by (simp add: isCommutative_def split: opcode.splits binary_op.splits)

lemma getValueNumber_known:
  "ValueNumbers T V = Some n \<Longrightarrow> getValueNumber T V = (n, T)"
  by (simp add: getValueNumber_def)

lemma canonicalize_pair:
  "isCommutative Opc \<Longrightarrow>
   canonicalizeOperands [x, y] Opc = (if y < x then [y, x] else [x, y])"
  by (simp add: canonicalizeOperands_def)

lemma canonicalize_swap:
  "isCommutative Opc \<Longrightarrow> canonicalizeOperands [x, y] Opc = canonicalizeOperands [y, x] Opc"
  by (auto simp: canonicalize_pair)

lemma commutative_not_cmp_gep:
  "isCommutative (getOpcode I) \<Longrightarrow> \<not> isCmpInst I \<and> \<not> isGetElementPtrInst I"
  by (auto simp: isCommutative_iff isCmpInst_def isGetElementPtrInst_def)

text \<open>
  Claim C5. For each of the seven commutative opcodes and operands \<open>a\<close>, \<open>b\<close> that
  are already numbered, the keys built for \<open>a op b\<close> and \<open>b op a\<close> are equal: the two
  operand numbers are put in ascending order, the table is left as it was, and
  \<open>operator==\<close> holds exactly when opcode, result type, operand numbers, predicate and
  in-bounds flag are all equal, that is, when the keys are the same.
\<close>

theorem commutative_key:
  assumes op: "Opc \<in> {BinaryOp Add, BinaryOp Mul, BinaryOp FAdd, BinaryOp FMul,
                       BinaryOp And, BinaryOp Or, BinaryOp Xor}"
    and a: "ValueNumbers T a = Some x"
    and b: "ValueNumbers T b = Some y"
    and i1: "getOpcode I1 = Opc" "operands I1 = [a, b]"
    and i2: "getOpcode I2 = Opc" "operands I2 = [b, a]"
    and ty: "getType I1 = getType I2"
  shows "fst (createExpressionKey T I1) = fst (createExpressionKey T I2) \<and>
         ExpressionKey_eq (fst (createExpressionKey T I1)) (fst (createExpressionKey T I2)) \<and>
         OperandValueNumbers (fst (createExpressionKey T I1)) = [min x y, max x y] \<and>
         sorted (OperandValueNumbers (fst (createExpressionKey T I1))) \<and>
         snd (createExpressionKey T I1) = T \<and> snd (createExpressionKey T I2) = T \<and>
         (\<forall>K1 K2. ExpressionKey_eq K1 K2 \<longleftrightarrow>
            (Opcode K1 = Opcode K2 \<and> ResultType K1 = ResultType K2 \<and>
             OperandValueNumbers K1 = OperandValueNumbers K2 \<and>
             Predicate K1 = Predicate K2 \<and> InBounds K1 = InBounds K2)) \<and>
         (\<forall>K1 K2. ExpressionKey_eq K1 K2 \<longleftrightarrow> K1 = K2)"
proof -
  from op have c: "isCommutative Opc" by (auto simp: isCommutative_iff)
  from c i1 have n1: "\<not> isCmpInst I1 \<and> \<not> isGetElementPtrInst I1"
    using commutative_not_cmp_gep [of I1] by simp
  from c i2 have n2: "\<not> isCmpInst I2 \<and> \<not> isGetElementPtrInst I2"
    using commutative_not_cmp_gep [of I2] by simp
  have o1: "operandValueNumbers T [a, b] = ([x, y], T)"
    by (simp add: getValueNumber_known a b)
  have o2: "operandValueNumbers T [b, a] = ([y, x], T)"
    by (simp add: getValueNumber_known a b)
  have k1: "createExpressionKey T I1 =
      (\<lparr> Opcode = Opc, OperandValueNumbers = canonicalizeOperands [x, y] Opc,
         ResultType = getType I1, Predicate = 0, InBounds = False \<rparr>, T)"
    unfolding createExpressionKey_def i1 o1 using n1 by simp
  have k2: "createExpressionKey T I2 =
      (\<lparr> Opcode = Opc, OperandValueNumbers = canonicalizeOperands [x, y] Opc,
         ResultType = getType I1, Predicate = 0, InBounds = False \<rparr>, T)"
    unfolding createExpressionKey_def i2 o2 using n2 ty canonicalize_swap [OF c, of y x] by simp
  have s: "canonicalizeOperands [x, y] Opc = [min x y, max x y]"
    using c by (auto simp: canonicalize_pair min_def max_def)
  show ?thesis
    unfolding k1 k2 by (auto simp: ExpressionKey_eq_def s min_le_iff_disj le_max_iff_disj)
qed

text \<open>The hypotheses of C5 hold for \<open>x + y\<close> and \<open>y + x\<close> in the example table.\<close>

theorem commutative_key_witness:
  "fst (createExpressionKey exampleTable (mkInst 1 (BinaryOp Add) 32 [ArgV 0, ArgV 1])) =
   fst (createExpressionKey exampleTable (mkInst 2 (BinaryOp Add) 32 [ArgV 1, ArgV 0])) \<and>
   OperandValueNumbers
     (fst (createExpressionKey exampleTable (mkInst 1 (BinaryOp Add) 32 [ArgV 0, ArgV 1])))
     = [1, 2]"
proof -
  have op: "BinaryOp Add \<in> {BinaryOp Add, BinaryOp Mul, BinaryOp FAdd, BinaryOp FMul,
                       BinaryOp And, BinaryOp Or, BinaryOp Xor}" by simp
  have a: "ValueNumbers exampleTable (ArgV 0) = Some 2" by (simp add: exampleTable_def)
  have b: "ValueNumbers exampleTable (ArgV 1) = Some 1" by (simp add: exampleTable_def)
  have i1: "getOpcode (mkInst 1 (BinaryOp Add) 32 [ArgV 0, ArgV 1]) = BinaryOp Add"
    "operands (mkInst 1 (BinaryOp Add) 32 [ArgV 0, ArgV 1]) = [ArgV 0, ArgV 1]"
    by (simp_all add: mkInst_def)
  have i2: "getOpcode (mkInst 2 (BinaryOp Add) 32 [ArgV 1, ArgV 0]) = BinaryOp Add"
    "operands (mkInst 2 (BinaryOp Add) 32 [ArgV 1, ArgV 0]) = [ArgV 1, ArgV 0]"
    by (simp_all add: mkInst_def)
  have ty: "getType (mkInst 1 (BinaryOp Add) 32 [ArgV 0, ArgV 1]) =
            getType (mkInst 2 (BinaryOp Add) 32 [ArgV 1, ArgV 0])"
    by (simp add: mkInst_def)
  note t = commutative_key [OF op a b i1 i2 ty]
  note e1 = t [THEN conjunct1]
  note e2 = t [THEN conjunct2, THEN conjunct2, THEN conjunct1]
  have "[min (2::u32) 1, max 2 1] = [1, 2]" by simp
  with e2 have e3: "OperandValueNumbers
     (fst (createExpressionKey exampleTable (mkInst 1 (BinaryOp Add) 32 [ArgV 0, ArgV 1])))
     = [1, 2]" by (rule trans)
  from e1 e3 show ?thesis by (rule conjI)
qed

lemma gvn_table: "ExpressionTable (snd (getValueNumber T V)) = ExpressionTable T"
  by (simp add: getValueNumber_def split: option.splits)

lemma gvn_mono:
  "ValueNumbers T W \<noteq> None \<Longrightarrow> ValueNumbers (snd (getValueNumber T V)) W \<noteq> None"
  by (simp add: getValueNumber_def split: option.splits)

lemma gvn_assigned: "ValueNumbers (snd (getValueNumber T V)) V \<noteq> None"
  by (simp add: getValueNumber_def split: option.splits)

lemma ovn_table: "ExpressionTable (snd (operandValueNumbers T Ops)) = ExpressionTable T"
proof (induction Ops arbitrary: T)
  case Nil
  show ?case by simp
next
  case (Cons Op Ops)
  obtain VN T1 where g: "getValueNumber T Op = (VN, T1)" by (cases "getValueNumber T Op")
  obtain VNs T2 where o: "operandValueNumbers T1 Ops = (VNs, T2)"
    by (cases "operandValueNumbers T1 Ops")
  from Cons.IH [of T1] o have "ExpressionTable T2 = ExpressionTable T1" by simp
  moreover from gvn_table [of T Op] g have "ExpressionTable T1 = ExpressionTable T" by simp
  ultimately show ?case by (simp add: g o)
qed

lemma ovn_mono:
  "ValueNumbers T W \<noteq> None \<Longrightarrow> ValueNumbers (snd (operandValueNumbers T Ops)) W \<noteq> None"
proof (induction Ops arbitrary: T)
  case Nil
  then show ?case by simp
next
  case (Cons Op Ops)
  obtain VN T1 where g: "getValueNumber T Op = (VN, T1)" by (cases "getValueNumber T Op")
  obtain VNs T2 where o: "operandValueNumbers T1 Ops = (VNs, T2)"
    by (cases "operandValueNumbers T1 Ops")
  from gvn_mono [OF Cons.prems, of Op] g have "ValueNumbers T1 W \<noteq> None" by simp
  from Cons.IH [OF this] o have "ValueNumbers T2 W \<noteq> None" by simp
  then show ?case by (simp add: g o)
qed

lemma cek_snd: "snd (createExpressionKey T I) = snd (operandValueNumbers T (operands I))"
  by (cases "operandValueNumbers T (operands I)") (simp add: createExpressionKey_def)

lemma cek_table: "ExpressionTable (snd (createExpressionKey T I)) = ExpressionTable T"
  by (simp only: cek_snd ovn_table)

lemma cek_mono:
  "ValueNumbers T W \<noteq> None \<Longrightarrow> ValueNumbers (snd (createExpressionKey T I)) W \<noteq> None"
  by (simp only: cek_snd) (rule ovn_mono)

lemma findCandidate_Some:
  "findCandidate d Cs q = Some c \<Longrightarrow> c \<in> set Cs \<and> c \<noteq> q \<and> d c q"
  by (induction Cs) (auto split: if_splits)

lemma findAvailableValue_Some:
  "findAvailableValue T K q d = Some c \<Longrightarrow> c \<noteq> q \<and> d c q \<and> c \<in> tableMembers T"
  by (auto simp: findAvailableValue_def tableMembers_def split: option.splits
           dest: findCandidate_Some)

lemma tableMembers_cong:
  "ExpressionTable T' = ExpressionTable T \<Longrightarrow> tableMembers T' = tableMembers T"
  by (simp add: tableMembers_def)

lemma tableMembers_add:
  "tableMembers (addExpression T K p) = insert p (tableMembers T)"
proof -
  let ?old = "case ExpressionTable T K of None \<Rightarrow> [] | Some Cs \<Rightarrow> Cs"
  have tab: "ExpressionTable (addExpression T K p) = (ExpressionTable T)(K \<mapsto> ?old @ [p])"
    by (simp add: addExpression_def)
  have old: "set ?old \<subseteq> tableMembers T"
  proof (cases "ExpressionTable T K")
    case None
    then show ?thesis by simp
  next
    case (Some Cs)
    then show ?thesis unfolding tableMembers_def by auto
  qed
  show ?thesis
  proof (intro set_eqI iffI)
    fix q assume "q \<in> tableMembers (addExpression T K p)"
    then obtain K' Cs where h: "((ExpressionTable T)(K \<mapsto> ?old @ [p])) K' = Some Cs"
      and q: "q \<in> set Cs"
      unfolding tableMembers_def tab by blast
    show "q \<in> insert p (tableMembers T)"
    proof (cases "K' = K")
      case True
      with h q have "q \<in> set (?old @ [p])" by auto
      with old show ?thesis by auto
    next
      case False
      with h have "ExpressionTable T K' = Some Cs" by simp
      with q show ?thesis unfolding tableMembers_def by blast
    qed
  next
    fix q assume "q \<in> insert p (tableMembers T)"
    then consider "q = p" | "q \<in> tableMembers T" by blast
    then show "q \<in> tableMembers (addExpression T K p)"
    proof cases
      case 1
      have "((ExpressionTable T)(K \<mapsto> ?old @ [p])) K = Some (?old @ [p])" by simp
      moreover have "q \<in> set (?old @ [p])" using 1 by simp
      ultimately show ?thesis unfolding tableMembers_def tab by blast
    next
      case 2
      then obtain K' Cs where h: "ExpressionTable T K' = Some Cs" and q: "q \<in> set Cs"
        unfolding tableMembers_def by blast
      show ?thesis
      proof (cases "K' = K")
        case True
        with h q have "q \<in> set (?old @ [p])" by simp
        moreover have "((ExpressionTable T)(K \<mapsto> ?old @ [p])) K = Some (?old @ [p])" by simp
        ultimately show ?thesis unfolding tableMembers_def tab by blast
      next
        case False
        with h have "((ExpressionTable T)(K \<mapsto> ?old @ [p])) K' = Some Cs" by simp
        with q show ?thesis unfolding tableMembers_def tab by blast
      qed
    qed
  qed
qed

lemma add_values: "ValueNumbers (addExpression T K p) = ValueNumbers T"
  by (simp add: addExpression_def)

text \<open>The three outcomes of one step.\<close>

lemma step_skip:
  assumes "\<not> isAnalyzable I"
  shows "tableMembers (fst (processInstruction d I (T, R))) = tableMembers T"
    and "RedundantInstructions (snd (processInstruction d I (T, R))) = RedundantInstructions R"
    and "ValueNumbers (fst (processInstruction d I (T, R))) (InstV (iid I)) \<noteq> None"
    and "ValueNumbers T W \<noteq> None \<Longrightarrow>
         ValueNumbers (fst (processInstruction d I (T, R))) W \<noteq> None"
  using assms
  by (simp_all add: processInstruction_def Let_def gvn_assigned gvn_mono
        tableMembers_cong [OF gvn_table])

lemma step_found:
  assumes "isAnalyzable I"
    and "findAvailableValue (snd (createExpressionKey T I)) (fst (createExpressionKey T I))
           (iid I) d = Some A"
  shows "tableMembers (fst (processInstruction d I (T, R))) = tableMembers T"
    and "RedundantInstructions (snd (processInstruction d I (T, R)))
           = (RedundantInstructions R)(iid I \<mapsto> A)"
    and "ValueNumbers (fst (processInstruction d I (T, R))) (InstV (iid I)) \<noteq> None"
    and "ValueNumbers T W \<noteq> None \<Longrightarrow>
         ValueNumbers (fst (processInstruction d I (T, R))) W \<noteq> None"
    and "A \<noteq> iid I \<and> d A (iid I) \<and> A \<in> tableMembers T"
proof -
  obtain Key T1 where k: "createExpressionKey T I = (Key, T1)"
    by (cases "createExpressionKey T I")
  from assms(2) k have f: "findAvailableValue T1 Key (iid I) d = Some A" by simp
  from cek_table [of T I] k have t1: "ExpressionTable T1 = ExpressionTable T" by simp
  have p: "processInstruction d I (T, R) =
      (snd (getValueNumber T1 (InstV (iid I))),
       R\<lparr> StatTotalInstructions := StatTotalInstructions R + 1,
          RedundantInstructions := (RedundantInstructions R)(iid I \<mapsto> A),
          StatRedundantInstructions := StatRedundantInstructions R + 1 \<rparr>)"
    using assms(1) by (simp add: processInstruction_def Let_def k f)
  show "tableMembers (fst (processInstruction d I (T, R))) = tableMembers T"
    unfolding p using tableMembers_cong [OF gvn_table] tableMembers_cong [OF t1] by simp
  show "RedundantInstructions (snd (processInstruction d I (T, R)))
           = (RedundantInstructions R)(iid I \<mapsto> A)"
    unfolding p by simp
  show "ValueNumbers (fst (processInstruction d I (T, R))) (InstV (iid I)) \<noteq> None"
    unfolding p by (simp add: gvn_assigned)
  show "ValueNumbers T W \<noteq> None \<Longrightarrow>
         ValueNumbers (fst (processInstruction d I (T, R))) W \<noteq> None"
  proof -
    assume "ValueNumbers T W \<noteq> None"
    from cek_mono [OF this, of I] k have "ValueNumbers T1 W \<noteq> None" by simp
    then show ?thesis unfolding p by (simp add: gvn_mono)
  qed
  from findAvailableValue_Some [OF f] tableMembers_cong [OF t1]
  show "A \<noteq> iid I \<and> d A (iid I) \<and> A \<in> tableMembers T" by simp
qed

lemma step_new:
  assumes "isAnalyzable I"
    and "findAvailableValue (snd (createExpressionKey T I)) (fst (createExpressionKey T I))
           (iid I) d = None"
  shows "tableMembers (fst (processInstruction d I (T, R))) = insert (iid I) (tableMembers T)"
    and "RedundantInstructions (snd (processInstruction d I (T, R))) = RedundantInstructions R"
    and "ValueNumbers (fst (processInstruction d I (T, R))) (InstV (iid I)) \<noteq> None"
    and "ValueNumbers T W \<noteq> None \<Longrightarrow>
         ValueNumbers (fst (processInstruction d I (T, R))) W \<noteq> None"
proof -
  obtain Key T1 where k: "createExpressionKey T I = (Key, T1)"
    by (cases "createExpressionKey T I")
  from assms(2) k have f: "findAvailableValue T1 Key (iid I) d = None" by simp
  from cek_table [of T I] k have t1: "ExpressionTable T1 = ExpressionTable T" by simp
  have p: "processInstruction d I (T, R) =
      (snd (getValueNumber (addExpression T1 Key (iid I)) (InstV (iid I))),
       R\<lparr> StatTotalInstructions := StatTotalInstructions R + 1,
          StatUniqueExpressions := StatUniqueExpressions R + 1 \<rparr>)"
    using assms(1) by (simp add: processInstruction_def Let_def k f)
  show "tableMembers (fst (processInstruction d I (T, R))) = insert (iid I) (tableMembers T)"
    unfolding p
    using tableMembers_cong [OF gvn_table] tableMembers_cong [OF t1]
    by (simp add: tableMembers_add)
  show "RedundantInstructions (snd (processInstruction d I (T, R))) = RedundantInstructions R"
    unfolding p by simp
  show "ValueNumbers (fst (processInstruction d I (T, R))) (InstV (iid I)) \<noteq> None"
    unfolding p by (simp add: gvn_assigned)
  show "ValueNumbers T W \<noteq> None \<Longrightarrow>
         ValueNumbers (fst (processInstruction d I (T, R))) W \<noteq> None"
  proof -
    assume "ValueNumbers T W \<noteq> None"
    from cek_mono [OF this, of I] k have "ValueNumbers T1 W \<noteq> None" by simp
    then have "ValueNumbers (addExpression T1 Key (iid I)) W \<noteq> None"
      by (simp add: add_values)
    then show ?thesis unfolding p by (simp add: gvn_mono)
  qed
qed

lemma analysisInv_step:
  assumes inv: "analysisInv d S st"
  shows "analysisInv d (insert I S) (processInstruction d I st)"
proof -
  obtain T R where st: "st = (T, R)" by (cases st)
  let ?A = "analyzableIds"
  from inv st have i1: "tableMembers T \<subseteq> ?A S"
    and i2: "\<forall>r p. RedundantInstructions R r = Some p \<longrightarrow>
          p \<noteq> r \<and> d p r \<and> r \<in> ?A S \<and> p \<in> tableMembers T"
    and i3: "\<forall>I \<in> S. ValueNumbers T (InstV (iid I)) \<noteq> None"
    by (simp_all add: analysisInv_def)
  have mono: "?A S \<subseteq> ?A (insert I S)" unfolding analyzableIds_def by blast
  show ?thesis
  proof (cases "isAnalyzable I")
    case False
    note s = step_skip [OF False, where d=d and T=T and R=R]
    show ?thesis
      unfolding st analysisInv_def
      using i1 i2 i3 mono s(3) s(4) by (auto simp: s(1) s(2))
  next
    case True
    show ?thesis
    proof (cases "findAvailableValue (snd (createExpressionKey T I))
         (fst (createExpressionKey T I)) (iid I) d")
      case None
      note s = step_new [OF True None]
      have here: "iid I \<in> ?A (insert I S)" using True unfolding analyzableIds_def by blast
      show ?thesis
        unfolding st analysisInv_def
        using i1 i2 i3 mono here s(3) s(4) by (auto simp: s(1) s(2))
    next
      case (Some A)
      note s = step_found [OF True Some]
      have here: "iid I \<in> ?A (insert I S)" using True unfolding analyzableIds_def by blast
      show ?thesis
        unfolding st analysisInv_def
        using i1 i2 i3 mono here s(3) s(4) s(5) by (auto simp: s(1) s(2))
    qed
  qed
qed

lemma analysisInv_fold:
  "analysisInv d S st \<Longrightarrow> analysisInv d (S \<union> set Is) (fold (processInstruction d) Is st)"
proof (induction Is arbitrary: S st)
  case Nil
  then show ?case by simp
next
  case (Cons I Is)
  from analysisInv_step [OF Cons.prems, of I]
  have "analysisInv d (insert I S \<union> set Is) (fold (processInstruction d) Is
          (processInstruction d I st))"
    by (rule Cons.IH)
  then show ?case by simp
qed

lemma analyzableIds_subset: "analyzableIds S \<subseteq> iid ` S"
  unfolding analyzableIds_def by blast

lemma disjointInv_step:
  assumes inv: "analysisInv d S st"
    and dis: "disjointInv st"
    and new: "iid I \<notin> iid ` S"
  shows "disjointInv (processInstruction d I st)"
proof -
  obtain T R where st: "st = (T, R)" by (cases st)
  from inv st have i1: "tableMembers T \<subseteq> analyzableIds S"
    and i2: "\<forall>r p. RedundantInstructions R r = Some p \<longrightarrow> r \<in> analyzableIds S"
    by (simp_all add: analysisInv_def)
  from i2 have keys: "dom (RedundantInstructions R) \<subseteq> analyzableIds S" by auto
  from dis st have d0: "tableMembers T \<inter> dom (RedundantInstructions R) = {}"
    by (simp add: disjointInv_def)
  from new analyzableIds_subset [of S] have n: "iid I \<notin> analyzableIds S" by blast
  show ?thesis
  proof (cases "isAnalyzable I")
    case False
    note s = step_skip [OF False, where d=d and T=T and R=R]
    show ?thesis unfolding st disjointInv_def using d0 by (simp add: s(1) s(2))
  next
    case True
    show ?thesis
    proof (cases "findAvailableValue (snd (createExpressionKey T I))
         (fst (createExpressionKey T I)) (iid I) d")
      case None
      note s = step_new [OF True None]
      from n keys have "iid I \<notin> dom (RedundantInstructions R)" by blast
      with d0 show ?thesis unfolding st disjointInv_def by (simp add: s(1) s(2))
    next
      case (Some A)
      note s = step_found [OF True Some]
      from n i1 have "iid I \<notin> tableMembers T" by blast
      with d0 show ?thesis unfolding st disjointInv_def by (simp add: s(1) s(2))
    qed
  qed
qed

lemma disjointInv_fold:
  "analysisInv d S st \<Longrightarrow> disjointInv st \<Longrightarrow> distinct (map iid Is) \<Longrightarrow>
   iid ` S \<inter> iid ` set Is = {} \<Longrightarrow>
   disjointInv (fold (processInstruction d) Is st)"
proof (induction Is arbitrary: S st)
  case Nil
  then show ?case by simp
next
  case (Cons I Is)
  from Cons.prems(4) have new: "iid I \<notin> iid ` S" by auto
  have a: "analysisInv d (insert I S) (processInstruction d I st)"
    using Cons.prems(1) by (rule analysisInv_step)
  have b: "disjointInv (processInstruction d I st)"
    using Cons.prems(1) Cons.prems(2) new by (rule disjointInv_step)
  from Cons.prems(3) have c: "distinct (map iid Is)" by simp
  from Cons.prems(3) Cons.prems(4) have e: "iid ` insert I S \<inter> iid ` set Is = {}" by auto
  from Cons.IH [OF a b c e] show ?case by simp
qed

lemma fold_processBlock:
  "fold (processBlock d) Bs st = fold (processInstruction d) (concat Bs) st"
  by (induction Bs arbitrary: st) (simp_all add: processBlock_def)

lemma args_table:
  "ExpressionTable (fold (\<lambda>Arg T. snd (getValueNumber T (ArgV Arg))) As T) = ExpressionTable T"
  by (induction As arbitrary: T) (simp_all add: gvn_table)

lemma runTable_eq:
  "runTable F = fold (processInstruction (dominates F)) (concat (domTreePreorder F))
     (fold (\<lambda>Arg T. snd (getValueNumber T (ArgV Arg))) (args F) newValueNumberTable,
      newRedundancyInfo)"
  by (simp add: runTable_def Let_def fold_processBlock)

lemma initial_members:
  "tableMembers (fold (\<lambda>Arg T. snd (getValueNumber T (ArgV Arg))) As newValueNumberTable) = {}"
  by (simp add: tableMembers_def args_table newValueNumberTable_def)

lemma initial_inv:
  "analysisInv d {} (fold (\<lambda>Arg T. snd (getValueNumber T (ArgV Arg))) As newValueNumberTable,
      newRedundancyInfo)"
  by (simp add: analysisInv_def initial_members newRedundancyInfo_def)

lemma initial_disjoint:
  "disjointInv (fold (\<lambda>Arg T. snd (getValueNumber T (ArgV Arg))) As newValueNumberTable,
      newRedundancyInfo)"
  by (simp add: disjointInv_def initial_members)

lemma run_inv: "analysisInv (dominates F) (set (concat (domTreePreorder F))) (runTable F)"
  unfolding runTable_eq
  using analysisInv_fold [OF initial_inv, of "dominates F" "concat (domTreePreorder F)" "args F"]
  by simp

lemma run_disjoint:
  "distinct (map iid (concat (domTreePreorder F))) \<Longrightarrow> disjointInv (runTable F)"
proof -
  assume d: "distinct (map iid (concat (domTreePreorder F)))"
  have e: "iid ` {} \<inter> iid ` set (concat (domTreePreorder F)) = {}" by simp
  from disjointInv_fold [OF initial_inv initial_disjoint d e]
  show ?thesis unfolding runTable_eq .
qed

lemma run_pairs:
  assumes "RedundantInstructions (run F) R = Some P"
  shows "P \<noteq> R" and "dominates F P R"
    and "R \<in> analyzableIds (set (concat (domTreePreorder F)))"
    and "P \<in> tableMembers (fst (runTable F))"
  using run_inv [of F] assms unfolding analysisInv_def run_def by blast+



text \<open>
  Claim C2. Every pair \<open>(R, P)\<close> of the map produced by \<open>run\<close> has \<open>P \<noteq> R\<close> and
  \<open>dominates(P, R)\<close>; and whatever the table, the key and the query point, an instruction
  returned by \<open>findAvailableValue\<close> is not the query point and dominates it.
\<close>

theorem dominance_soundness:
  "(\<forall>R P. RedundantInstructions (run F) R = Some P \<longrightarrow> P \<noteq> R \<and> dominates F P R) \<and>
   (\<forall>T Key I P. findAvailableValue T Key I (dominates F) = Some P
       \<longrightarrow> P \<noteq> I \<and> dominates F P I)"
  using run_pairs(1,2) findAvailableValue_Some by blast

text \<open>
  Claim C10. When the instructions of the traversal are distinct, a replacement of the map
  is never a key of the map: a key is in no bucket of the expression table, and its
  replacement is in one.
\<close>

theorem no_replacement_chains:
  assumes d: "distinct (map iid (concat (domTreePreorder F)))"
    and m: "RedundantInstructions (run F) R = Some P"
  shows "RedundantInstructions (run F) P = None \<and>
         (\<forall>K Cs. ExpressionTable (fst (runTable F)) K = Some Cs \<longrightarrow> R \<notin> set Cs) \<and>
         (\<exists>K Cs. ExpressionTable (fst (runTable F)) K = Some Cs \<and> P \<in> set Cs)"
proof -
  from run_disjoint [OF d]
  have dis: "tableMembers (fst (runTable F)) \<inter> dom (RedundantInstructions (run F)) = {}"
    by (simp add: disjointInv_def run_def)
  from run_pairs(4) [OF m] have p: "P \<in> tableMembers (fst (runTable F))" .
  with dis have "P \<notin> dom (RedundantInstructions (run F))" by blast
  then have a: "RedundantInstructions (run F) P = None" by blast
  from m have "R \<in> dom (RedundantInstructions (run F))" by blast
  with dis have "R \<notin> tableMembers (fst (runTable F))" by blast
  then have b: "\<forall>K Cs. ExpressionTable (fst (runTable F)) K = Some Cs \<longrightarrow> R \<notin> set Cs"
    unfolding tableMembers_def by blast
  from p have c: "\<exists>K Cs. ExpressionTable (fst (runTable F)) K = Some Cs \<and> P \<in> set Cs"
    unfolding tableMembers_def by blast
  from a b c show ?thesis by blast
qed

text \<open>In the example, \<open>v\<close> is redundant to \<open>u\<close>, which is not \<open>v\<close> and dominates it.\<close>

theorem dominance_soundness_witness:
  "RedundantInstructions (run commutativeExample) 2 = Some 1 \<and> (1::nat) \<noteq> 2 \<and>
   dominates commutativeExample 1 2"
proof -
  have m: "RedundantInstructions (run commutativeExample) 2 = Some 1" by code_simp
  from dominance_soundness [of commutativeExample] m show ?thesis by blast
qed

text \<open>In the example, the replacement \<open>u\<close> of \<open>v\<close> is not itself a key of the map.\<close>

theorem no_replacement_chains_witness:
  "distinct (map iid (concat (domTreePreorder commutativeExample))) \<and>
   RedundantInstructions (run commutativeExample) 2 = Some 1 \<and>
   RedundantInstructions (run commutativeExample) 1 = None"
proof -
  have d: "distinct (map iid (concat (domTreePreorder commutativeExample)))" by code_simp
  have m: "RedundantInstructions (run commutativeExample) 2 = Some 1" by code_simp
  from no_replacement_chains [OF d m] d m show ?thesis by blast
qed

section \<open>Redundancy elimination: redirection, erasure and skipped pairs\<close>






lemma matchingPairs_Cons:
  "matchingPairs F (E # Es) =
     (case E of (Some R, Some P) \<Rightarrow> if typesMatch F R P then [(R, P)] else [] | _ \<Rightarrow> [])
     @ matchingPairs F Es"
  by (simp split: prod.splits option.splits)





lemma redirectAll_typeView: "typeView (redirectAll Ps B) = typeView B"
  by (simp add: typeView_def redirectAll_def map_concat comp_def)

lemma redirectAll_append:
  "redirectAll (Ps @ Qs) B = redirectAll Qs (redirectAll Ps B)"
  by (simp add: redirectAll_def comp_def redirect_def)


















lemma RAUW_ids: "map (map iid) (replaceAllUsesWith B R V) = map (map iid) B"
  by (simp add: replaceAllUsesWith_def comp_def)

















section \<open>Constant folding: the fixed point and the early return\<close>

lemma foldInstruction_ids:
  "map (map iid) (function_body (foldInstruction Fold p T)) = map (map iid) (function_body T)"
  by (simp add: foldInstruction_def replaceAndScheduleRemoval_def replaceAllUsesWith_def
        comp_def split: option.split)

lemma foldInstruction_unchanged:
  "\<not> Changed (foldInstruction Fold p T) \<Longrightarrow>
   foldInstruction Fold p T = T \<and> (\<forall>I. deref (function_body T) p = Some I \<longrightarrow> Fold I = None)"
  by (auto simp: foldInstruction_def tryFold_def split: option.splits)

lemma foldInstruction_Changed:
  "Changed T \<Longrightarrow> Changed (foldInstruction Fold p T)"
  by (simp add: foldInstruction_def replaceAndScheduleRemoval_def split: option.split)

lemma fold_Changed:
  "Changed T \<Longrightarrow> Changed (fold (foldInstruction Fold) ps T)"
  by (induction ps arbitrary: T) (simp_all add: foldInstruction_Changed)

lemma fold_unchanged:
  "\<not> Changed (fold (foldInstruction Fold) ps T) \<Longrightarrow>
   fold (foldInstruction Fold) ps T = T \<and>
   (\<forall>p\<in>set ps. \<forall>I. deref (function_body T) p = Some I \<longrightarrow> Fold I = None)"
proof (induction ps arbitrary: T)
  case Nil
  show ?case by simp
next
  case (Cons p ps)
  from Cons.prems have nc: "\<not> Changed (fold (foldInstruction Fold) ps (foldInstruction Fold p T))"
    by simp
  then have "\<not> Changed (foldInstruction Fold p T)"
    using fold_Changed by blast
  from foldInstruction_unchanged [OF this]
  have eq: "foldInstruction Fold p T = T"
    and np: "\<forall>I. deref (function_body T) p = Some I \<longrightarrow> Fold I = None"
    by simp_all
  from Cons.IH [OF nc] eq np show ?case
    by simp
qed

lemma deref_distinct:
  "distinct (map iid xs) \<Longrightarrow> I \<in> set xs \<Longrightarrow> find (\<lambda>J. iid J = iid I) xs = Some I"
  by (induction xs) (auto simp: image_iff)

lemma sweep_unchanged:
  assumes d: "distinct (map iid (concat F))" and nc: "\<not> Changed (sweep Fold F Count)"
  shows "function_body (sweep Fold F Count) = F \<and> (\<forall>I\<in>set (concat F). Fold I = None)"
proof -
  let ?S0 = "\<lparr> function_body = F, Scheduled = [], Changed = False, TotalFolded = Count \<rparr>"
  from nc have "\<not> Changed (fold (foldInstruction Fold) (map iid (concat F)) ?S0)"
    by (simp add: sweep_def Let_def)
  from fold_unchanged [OF this]
  have eq: "fold (foldInstruction Fold) (map iid (concat F)) ?S0 = ?S0"
    and np: "\<forall>p\<in>set (map iid (concat F)). \<forall>I. deref F p = Some I \<longrightarrow> Fold I = None"
    by simp_all
  have "Fold I = None" if "I \<in> set (concat F)" for I
  proof -
    from deref_distinct [OF d that] have "deref F (iid I) = Some I"
      by (simp add: deref_def)
    moreover from that have "iid I \<in> set (map iid (concat F))"
      by (simp del: set_concat)
    ultimately show ?thesis
      using np by blast
  qed
  moreover have "function_body (sweep Fold F Count) = F"
    by (simp add: sweep_def Let_def eq)
  ultimately show ?thesis
    by blast
qed

lemma fold_ids:
  "map (map iid) (function_body (fold (foldInstruction Fold) ps T)) = map (map iid) (function_body T)"
  by (induction ps arbitrary: T) (simp_all add: foldInstruction_ids)

lemma erase_distinct:
  "distinct (map iid (concat G)) \<Longrightarrow> distinct (map iid (concat (fold eraseFromParent ps G)))"
proof (induction ps arbitrary: G)
  case Nil
  then show ?case by simp
next
  case (Cons p ps)
  have "concat (eraseFromParent p G) = filter (\<lambda>I. iid I \<noteq> p) (concat G)"
    by (simp add: eraseFromParent_def filter_concat)
  with Cons.prems have "distinct (map iid (concat (eraseFromParent p G)))"
    by (simp add: distinct_map_filter)
  from Cons.IH [OF this] show ?case
    by simp
qed

lemma sweep_distinct:
  assumes "distinct (map iid (concat F))"
  shows "distinct (map iid (concat (function_body (sweep Fold F Count))))"
proof -
  let ?S = "fold (foldInstruction Fold) (map iid (concat F))
              \<lparr> function_body = F, Scheduled = [], Changed = False, TotalFolded = Count \<rparr>"
  have "map (map iid) (function_body ?S) = map (map iid) F"
    using fold_ids [of Fold "map iid (concat F)"] by simp
  then have "map iid (concat (function_body ?S)) = map iid (concat F)"
    by (metis map_concat)
  with assms have "distinct (map iid (concat (function_body ?S)))"
    by simp
  from erase_distinct [OF this] show ?thesis
    by (simp add: sweep_def Let_def)
qed

lemma foldToFixedPoint_fixed:
  "distinct (map iid (concat F)) \<Longrightarrow> foldToFixedPoint Fold F Count = (F', Count') \<Longrightarrow>
   I \<in> set (concat F') \<Longrightarrow> Fold I = None"
proof (induction Fold F Count rule: foldToFixedPoint.induct)
  case (1 Fold F Count)
  show ?case
  proof (cases "Changed (sweep Fold F Count)")
    case True
    with "1.prems"(2)
    have "foldToFixedPoint Fold (function_body (sweep Fold F Count)) (TotalFolded (sweep Fold F Count))
            = (F', Count')"
      by (simp add: foldToFixedPoint.simps [of Fold F Count] Let_def)
    from "1.IH" [OF refl True sweep_distinct [OF "1.prems"(1)] this "1.prems"(3)]
    show ?thesis .
  next
    case False
    with "1.prems"(2) have "function_body (sweep Fold F Count) = F'"
      by (simp add: foldToFixedPoint.simps [of Fold F Count] Let_def)
    with sweep_unchanged [OF "1.prems"(1) False] "1.prems"(3) show ?thesis
      by (simp del: set_concat)
  qed
qed

text \<open>
  On the path where the visitor has collected a candidate, the loop runs until a round
  folds nothing, and no instruction of the returned body is foldable.
\<close>

lemma run_with_candidates:
  assumes "distinct (map iid (concat F))"
    and "FoldingCandidates (fold (\<lambda>I V. snd (visit Fold I V)) (concat F) newVisitor) \<noteq> []"
    and "ConstantFoldingPass_run Fold F = (F', preserved)"
    and "I \<in> set (concat F')"
  shows "\<not> foldable Fold I"
proof -
  obtain F1 Count1 where r: "foldToFixedPoint Fold F 0 = (F1, Count1)"
    by (cases "foldToFixedPoint Fold F 0")
  with assms(2,3) have "F' = F1"
    by (simp add: ConstantFoldingPass_run_def Let_def split: if_splits)
  with foldToFixedPoint_fixed [OF assms(1) r] assms(4) show ?thesis
    by (simp add: foldable_def)
qed

text \<open>
  Claim C1. When \<open>ConstantFoldingPass::run\<close> returns, no remaining instruction has
  all-constant operands and a defined constant evaluation, also on the path where the
  visitor collects no candidate. The code differs: on the body \<open>freezeBody\<close> the visitor,
  which has no method for \<open>freeze\<close>, collects nothing and \<open>run\<close> returns the body as it
  is, with the \<open>freeze\<close> of the constant 7 that the evaluator folds; on \<open>addFreezeBody\<close>
  the visitor collects the addition and the loop folds the \<open>freeze\<close> as well.
\<close>

theorem constant_folding_early_return:
  "ConstantFoldingPass_run foldExample freezeBody = (freezeBody, True) \<and>
   deref freezeBody 1 = Some (mkInst 1 (OtherOp Freeze) 32 [ConstV 7]) \<and>
   foldable foldExample (mkInst 1 (OtherOp Freeze) 32 [ConstV 7]) \<and>
   foldExample (mkInst 1 (OtherOp Freeze) 32 [ConstV 7]) = Some 7 \<and>
   ConstantFoldingPass_run foldExample addFreezeBody =
     ([[mkInst 2 (TermOp Ret) 0 [ConstV 7]]], False)"
  by code_simp

section \<open>Value numbering: only analyzable instructions enter the table\<close>










section \<open>Determinism: order of candidates and of map entries\<close>




















end
